theory Spec2Isabelle
  imports Main "HOL-Library.AList" "HOL-Library.Sublist"
begin

section \<open>Python values\<close>

text \<open>
  A Python \<^verbatim>\<open>str\<close> is a sequence of Unicode code points, and \<^verbatim>\<open>len\<close> counts code
  points, so a string is modelled as the list of its code points. \<open>S\<close> turns an ASCII
  literal of the theory into such a string.
\<close>

type_synonym codepoint = nat
type_synonym pystr = "codepoint list"

definition S :: "string \<Rightarrow> pystr" where
  "S cs = map of_char cs"

text \<open>
  Exceptions are values. \<open>ValueError p d\<close> stands for \<^verbatim>\<open>ValueError(p + d)\<close> where the
  detail \<open>d\<close> is nothing, the \<^verbatim>\<open>str()\<close> of a caught exception (the f-strings of the
  source) or the \<^verbatim>\<open>repr()\<close> of a string (the messages of \<^verbatim>\<open>int()\<close> and \<^verbatim>\<open>float()\<close>).
  The library exceptions carry no message text: \<open>JSONDecodeError\<close> is raised by
  \<^verbatim>\<open>json.loads\<close> for a malformed text, \<open>ValidationError\<close> by the record library when a
  field is rejected, \<open>PydanticSerializationError\<close> by the record library when a value
  cannot be rendered, \<open>TypeError\<close> by \<^verbatim>\<open>TestSuite(**x)\<close> when \<^verbatim>\<open>x\<close> is no mapping, and
  \<open>ServiceError\<close> is whatever the chat-completion client raised. The interpreter
  raises \<open>RecursionError\<close> when calls nest deeper than it allows, and \<open>DigitLimitError\<close>
  is the \<^verbatim>\<open>ValueError\<close> it raises when a conversion between \<^verbatim>\<open>int\<close> and \<^verbatim>\<open>str\<close>
  exceeds its limit on the number of digits.
\<close>

datatype exn =
    JSONDecodeError
  | ValidationError
  | PydanticSerializationError
  | TypeError
  | RecursionError
  | DigitLimitError
  | ServiceError pystr
  | ValueError pystr detail
  | Exception pystr detail
and detail =
    NoDetail
  | StrOf exn
  | ReprOf pystr

text \<open>\<^verbatim>\<open>isinstance(e, ValueError)\<close>: the decoder's and the record library's errors are
  subclasses of \<^verbatim>\<open>ValueError\<close>; a plain \<^verbatim>\<open>Exception\<close> is not.\<close>

fun is_ValueError :: "exn \<Rightarrow> bool" where
  "is_ValueError (ValueError _ _) = True"
| "is_ValueError JSONDecodeError = True"
| "is_ValueError ValidationError = True"
| "is_ValueError PydanticSerializationError = True"
| "is_ValueError DigitLimitError = True"
| "is_ValueError _ = False"

text \<open>
  A \<^verbatim>\<open>str\<close> may hold a lone surrogate (a code point from D800 to DFFF), which has no
  UTF-8 encoding. The record library, which works on UTF-8, refuses such a string
  wherever it has to read its characters.
\<close>

definition is_surrogate :: "codepoint \<Rightarrow> bool" where
  "is_surrogate c = (55296 \<le> c \<and> c \<le> 57343)"

definition has_surrogate :: "pystr \<Rightarrow> bool" where
  "has_surrogate s = list_ex is_surrogate s"

text \<open>
  \<^verbatim>\<open>str(n)\<close> of a natural number and of an integer: decimal digits, with a minus sign
  for a negative integer.
\<close>

fun str_nat :: "nat \<Rightarrow> pystr" where
  "str_nat n = (if n < 10 then [48 + n] else str_nat (n div 10) @ [48 + n mod 10])"

declare str_nat.simps [simp del]

definition str_int :: "int \<Rightarrow> pystr" where
  "str_int i = (if i < 0 then 45 # str_nat (nat (- i)) else str_nat (nat i))"

text \<open>
  The interpreter limits the digits of a conversion between \<^verbatim>\<open>int\<close> and \<^verbatim>\<open>str\<close>:
  \<open>limit\<close> is \<^verbatim>\<open>sys.get_int_max_str_digits()\<close>, 4300 unless it is set, and 0 switches
  the limit off. A conversion of at most 640 digits is never refused.
\<close>

definition within_digit_limit :: "nat \<Rightarrow> nat \<Rightarrow> bool" where
  "within_digit_limit limit digits = (digits \<le> 640 \<or> limit = 0 \<or> digits \<le> limit)"

definition int_digits :: "int \<Rightarrow> nat" where
  "int_digits i = length (str_nat (nat \<bar>i\<bar>))"

section \<open>models.py\<close>

record TestScenario =
  scenario_id :: pystr
  title :: pystr
  description :: pystr
  preconditions :: "pystr list"
  test_steps :: "pystr list"
  expected_result :: pystr
  test_type :: pystr
  priority :: pystr

record TestSuite =
  user_story :: pystr
  test_scenarios :: "TestScenario list"
  coverage_areas :: "pystr list"
  total_scenarios :: int

record UserStoryInput =
  story :: pystr
  acceptance_criteria :: "pystr list option"
  story_type :: "pystr option"

text \<open>
  \<^verbatim>\<open>UserStoryInput(story=..., acceptance_criteria=...)\<close>: the only constraint is
  \<^verbatim>\<open>min_length=10\<close> on \<^verbatim>\<open>story\<close>. To count the characters of the story the library
  reads it as UTF-8, so it rejects a story with a lone surrogate before it compares the
  length. \<^verbatim>\<open>acceptance_criteria\<close> is optional with default \<^verbatim>\<open>None\<close>, its strings are
  taken as they are, and \<^verbatim>\<open>story_type\<close>, which the generator never passes, takes its
  default \<^verbatim>\<open>"feature"\<close>.
\<close>

definition UserStoryInput_init :: "pystr \<Rightarrow> pystr list option \<Rightarrow> exn + UserStoryInput" where
  "UserStoryInput_init us ac =
     (if has_surrogate us then Inl ValidationError
      else if length us < 10 then Inl ValidationError
      else Inr \<lparr>story = us, acceptance_criteria = ac,
                story_type = Some (S ''feature'')\<rparr>)"

section \<open>test\_case\_generator.py: input validation\<close>

text \<open>\<^verbatim>\<open>validate_user_story\<close> wraps every exception of the construction in a
  \<^verbatim>\<open>ValueError\<close>. An omitted \<^verbatim>\<open>acceptance_criteria\<close> argument is \<open>None\<close>.\<close>

definition validate_user_story :: "pystr \<Rightarrow> pystr list option \<Rightarrow> exn + UserStoryInput" where
  "validate_user_story us ac =
     (case UserStoryInput_init us ac of
        Inl e \<Rightarrow> Inl (ValueError (S ''Invalid user story input: '') (StrOf e))
      | Inr validated \<Rightarrow> Inr validated)"

section \<open>test\_case\_generator.py: console and Markdown rendering\<close>

text \<open>\<^verbatim>\<open>sep.join(xs)\<close>.\<close>

fun str_join :: "pystr \<Rightarrow> pystr list \<Rightarrow> pystr" where
  "str_join sep [] = []"
| "str_join sep [x] = x"
| "str_join sep (x # y # ys) = x @ sep @ str_join sep (y # ys)"

text \<open>
  The formatters build a list \<^verbatim>\<open>output\<close> of lines with \<^verbatim>\<open>output.append\<close> and join it
  with newlines. Each \<^verbatim>\<open>for\<close> loop is a left fold over the list it runs through, with
  \<^verbatim>\<open>output\<close> as the state; \<^verbatim>\<open>enumerate(xs, 1)\<close> is \<open>enumerate 1 xs\<close>. Code point 10 is
  the newline, 61 is \<^verbatim>\<open>=\<close>, 45 is \<^verbatim>\<open>-\<close> and 8226 is the bullet of the console list.
\<close>

definition console_scenario :: "pystr list \<Rightarrow> nat \<times> TestScenario \<Rightarrow> pystr list" where
  "console_scenario out p =
     (case p of (i, scenario) \<Rightarrow>
      let output = out @ [10 # S ''TEST SCENARIO '' @ str_nat i @ S '': '' @ scenario_id scenario];
          output = output @ [replicate 40 45];
          output = output @ [S ''Title: '' @ title scenario];
          output = output @ [S ''Type: '' @ test_type scenario];
          output = output @ [S ''Priority: '' @ priority scenario];
          output = output @ [10 # S ''Description: '' @ description scenario];
          output = output @ [10 # S ''Preconditions:''];
          output = foldl (\<lambda>output precond. output @ [S ''  '' @ [8226] @ S '' '' @ precond])
                     output (preconditions scenario);
          output = output @ [10 # S ''Test Steps:''];
          output = foldl (\<lambda>output (step_num, step).
                       output @ [S ''  '' @ str_nat step_num @ S ''. '' @ step])
                     output (enumerate 1 (test_steps scenario));
          output = output @ [10 # S ''Expected Result: '' @ expected_result scenario];
          output = output @ [replicate 40 45]
      in output)"

definition format_console :: "TestSuite \<Rightarrow> pystr" where
  "format_console test_suite =
     (let output = [];
          output = output @ [replicate 80 61];
          output = output @ [S ''TEST CASE GENERATOR RESULTS''];
          output = output @ [replicate 80 61];
          output = output @ [10 # S ''User Story: '' @ user_story test_suite];
          output = output @ [S ''Total Test Scenarios: '' @ str_int (total_scenarios test_suite)];
          output = output @ [S ''Coverage Areas: '' @ str_join (S '', '') (coverage_areas test_suite)];
          output = output @ [10 # replicate 80 61];
          output = foldl console_scenario output (enumerate 1 (test_scenarios test_suite))
      in str_join [10] output)"

definition markdown_scenario :: "pystr list \<Rightarrow> nat \<times> TestScenario \<Rightarrow> pystr list" where
  "markdown_scenario out p =
     (case p of (i, scenario) \<Rightarrow>
      let output = out @ [10 # S ''## Test Scenario '' @ str_nat i @ S '': '' @ scenario_id scenario];
          output = output @ [S ''**Title:** '' @ title scenario];
          output = output @ [S ''**Type:** '' @ test_type scenario];
          output = output @ [S ''**Priority:** '' @ priority scenario];
          output = output @ [10 # S ''**Description:** '' @ description scenario];
          output = output @ [10 # S ''**Preconditions:**''];
          output = foldl (\<lambda>output precond. output @ [S ''- '' @ precond])
                     output (preconditions scenario);
          output = output @ [10 # S ''**Test Steps:**''];
          output = foldl (\<lambda>output (step_num, step).
                       output @ [str_nat step_num @ S ''. '' @ step])
                     output (enumerate 1 (test_steps scenario));
          output = output @ [10 # S ''**Expected Result:** '' @ expected_result scenario]
      in output)"

definition format_markdown :: "TestSuite \<Rightarrow> pystr" where
  "format_markdown test_suite =
     (let output = [];
          output = output @ [S ''# Test Case Generator Results''];
          output = output @ [10 # S ''**User Story:** '' @ user_story test_suite];
          output = output @ [S ''**Total Test Scenarios:** '' @ str_int (total_scenarios test_suite)];
          output = output @ [S ''**Coverage Areas:** '' @ str_join (S '', '') (coverage_areas test_suite)];
          output = foldl markdown_scenario output (enumerate 1 (test_scenarios test_suite))
      in str_join [10] output)"

text \<open>
  The order of the fields in a rendering, in the words of the specification: title,
  type, priority, description, the preconditions as a bulleted list, the numbered steps,
  the expected result. \<open>label\<close> and \<open>heading\<close> decorate a field name, \<open>bullet\<close> starts a
  precondition and \<open>indent\<close> a step.
\<close>

definition fields_in_order ::
  "(string \<Rightarrow> pystr) \<Rightarrow> (string \<Rightarrow> pystr) \<Rightarrow> pystr \<Rightarrow> pystr \<Rightarrow> TestScenario \<Rightarrow> pystr list" where
  "fields_in_order label heading bullet indent sc =
     [label ''Title'' @ title sc,
      label ''Type'' @ test_type sc,
      label ''Priority'' @ priority sc,
      10 # label ''Description'' @ description sc,
      10 # heading ''Preconditions''] @
     map (\<lambda>precond. bullet @ precond) (preconditions sc) @
     [10 # heading ''Test Steps''] @
     map (\<lambda>(step_num, step). indent @ str_nat step_num @ S ''. '' @ step)
       (enumerate 1 (test_steps sc)) @
     [10 # label ''Expected Result'' @ expected_result sc]"

text \<open>
  \<open>occurs_in_order ns t\<close>: the strings \<open>ns\<close> occur in \<open>t\<close> one after the other, without
  overlap. \<open>find_after n t\<close> is what follows the first occurrence of \<open>n\<close> in \<open>t\<close>.
\<close>

fun find_after :: "pystr \<Rightarrow> pystr \<Rightarrow> pystr option" where
  "find_after needle [] = (if needle = [] then Some [] else None)"
| "find_after needle (c # cs) =
     (if prefix needle (c # cs) then Some (drop (length needle) (c # cs))
      else find_after needle cs)"

fun occurs_in_order :: "pystr list \<Rightarrow> pystr \<Rightarrow> bool" where
  "occurs_in_order [] t = True"
| "occurs_in_order (n # ns) t =
     (case find_after n t of None \<Rightarrow> False | Some r \<Rightarrow> occurs_in_order ns r)"

text \<open>Sample data: a suite of six scenarios numbered TC001 to TC006.\<close>

definition demo_scenario :: "pystr \<Rightarrow> pystr \<Rightarrow> TestScenario" where
  "demo_scenario sid ttl =
     \<lparr>scenario_id = sid, title = ttl, description = S ''Verify the login form'',
      preconditions = [S ''User is on the login page'', S ''Application is running''],
      test_steps = [S ''Navigate to the login page'', S ''Click the Login button''],
      expected_result = S ''The outcome is shown'', test_type = S ''positive'',
      priority = S ''high''\<rparr>"

definition demo_suite :: TestSuite where
  "demo_suite =
     \<lparr>user_story = S ''As a registered user, I want to log into my account using my email and password so that I can access my personalized dashboard.'',
      test_scenarios =
        [demo_scenario (S ''TC001'') (S ''Valid Login with Correct Credentials''),
         demo_scenario (S ''TC002'') (S ''Invalid Email Format Validation''),
         demo_scenario (S ''TC003'') (S ''Empty Credentials Validation''),
         demo_scenario (S ''TC004'') (S ''Account Lockout After Failed Attempts''),
         demo_scenario (S ''TC005'') (S ''SQL Injection Prevention''),
         demo_scenario (S ''TC006'') (S ''Password Field Security'')],
      coverage_areas = [S ''Authentication'', S ''Security''],
      total_scenarios = 6\<rparr>"

section \<open>The JSON decoder of the standard library\<close>

text \<open>
  The value \<^verbatim>\<open>json.loads\<close> returns: \<^verbatim>\<open>None\<close>, a bool, an int, a float, a str, a list
  or a dict. A float is kept as the numeral the decoder hands to \<^verbatim>\<open>float()\<close> (or the
  constant \<^verbatim>\<open>NaN\<close>, \<^verbatim>\<open>Infinity\<close>, \<^verbatim>\<open>-Infinity\<close>): its binary64 value is never
  computed with. A dict is the list of its items in insertion order, with distinct keys.
\<close>

datatype json =
    JNull
  | JBool bool
  | JInt int
  | JFloat pystr
  | JString pystr
  | JArray "json list"
  | JObject "(pystr \<times> json) list"

text \<open>
  The decoder is the scanner of the standard library (\<^verbatim>\<open>json.decoder\<close>,
  \<^verbatim>\<open>json.scanner\<close> and their C accelerator) with its default settings: strict
  strings, no hooks. The scanner works on the string and an index and returns the value
  with the index after it; here each function takes what is left of the text and returns
  the value with what is left after it. The decoder raises \<^verbatim>\<open>JSONDecodeError\<close> for a
  malformed text (in \<open>scanstring\<close>, \<open>None\<close> stands for it), and two limits of the
  interpreter interrupt it: the scanner enters each array and each object through a
  guarded recursive call, which raises \<open>RecursionError\<close> when no call is left, and an
  integer literal is converted by \<^verbatim>\<open>int\<close>, which raises when it has too many digits.
\<close>

text \<open>
  What the source leaves to the interpreter and to its libraries. \<open>coerce_int\<close>: the
  values other than integers that the record library converts for an \<^verbatim>\<open>int\<close> field
  (see the construction of a suite). \<open>recursion_room\<close>: how many nested guarded calls
  the interpreter still allows when the decoder is entered (the recursion limit less the
  depth of the call stack). \<open>max_str_digits\<close>: the limit on the digits of a conversion.
\<close>

record runtime =
  coerce_int :: "json \<rightharpoonup> int"
  recursion_room :: nat
  max_str_digits :: nat

definition is_json_ws :: "codepoint \<Rightarrow> bool" where
  "is_json_ws c = (c = 32 \<or> c = 9 \<or> c = 10 \<or> c = 13)"

definition skip_ws :: "pystr \<Rightarrow> pystr" where
  "skip_ws s = dropWhile is_json_ws s"

definition is_digit :: "codepoint \<Rightarrow> bool" where
  "is_digit c = (48 \<le> c \<and> c \<le> 57)"

text \<open>
  \<^verbatim>\<open>scanstring\<close>, entered after the opening quote: code point 34 is the quote, 92 the
  backslash, 117 the letter u. An escape of four hexadecimal digits that names a high
  surrogate, followed by the escape of a low surrogate, is one code point.
\<close>

definition hex_val :: "codepoint \<Rightarrow> nat option" where
  "hex_val c =
     (if 48 \<le> c \<and> c \<le> 57 then Some (c - 48)
      else if 97 \<le> c \<and> c \<le> 102 then Some (c - 87)
      else if 65 \<le> c \<and> c \<le> 70 then Some (c - 55)
      else None)"

fun hex4 :: "pystr \<Rightarrow> nat option" where
  "hex4 (a # b # c # d # _) =
     (case (hex_val a, hex_val b, hex_val c, hex_val d) of
        (Some w, Some x, Some y, Some z) \<Rightarrow> Some (((w * 16 + x) * 16 + y) * 16 + z)
      | _ \<Rightarrow> None)"
| "hex4 _ = None"

definition unescape :: "codepoint \<Rightarrow> codepoint option" where
  "unescape e =
     (if e = 34 then Some 34
      else if e = 92 then Some 92
      else if e = 47 then Some 47
      else if e = 98 then Some 8
      else if e = 102 then Some 12
      else if e = 110 then Some 10
      else if e = 114 then Some 13
      else if e = 116 then Some 9
      else None)"

definition is_high_surrogate :: "nat \<Rightarrow> bool" where
  "is_high_surrogate u = (55296 \<le> u \<and> u \<le> 56319)"

definition is_low_surrogate :: "nat \<Rightarrow> bool" where
  "is_low_surrogate u = (56320 \<le> u \<and> u \<le> 57343)"

definition join_surrogates :: "nat \<Rightarrow> nat \<Rightarrow> codepoint" where
  "join_surrogates hi lo = 65536 + (hi - 55296) * 1024 + (lo - 56320)"

definition put :: "codepoint \<Rightarrow> (pystr \<times> pystr) option \<Rightarrow> (pystr \<times> pystr) option" where
  "put c r = (case r of None \<Rightarrow> None | Some (s, rest) \<Rightarrow> Some (c # s, rest))"

function scanstring :: "pystr \<Rightarrow> (pystr \<times> pystr) option" where
  "scanstring [] = None"
| "scanstring (c # cs) =
     (if c = 34 then Some ([], cs)
      else if c = 92 then
        (case cs of
           [] \<Rightarrow> None
         | e # es \<Rightarrow>
             if e = 117 then
               (case hex4 es of
                  None \<Rightarrow> None
                | Some u \<Rightarrow>
                    if is_high_surrogate u \<and> 6 < length (drop 4 es) \<and>
                       take 2 (drop 4 es) = [92, 117] then
                      (case hex4 (drop 6 es) of
                         None \<Rightarrow> None
                       | Some u2 \<Rightarrow>
                           if is_low_surrogate u2
                           then put (join_surrogates u u2) (scanstring (drop 10 es))
                           else put u (scanstring (drop 4 es)))
                    else put u (scanstring (drop 4 es)))
             else
               (case unescape e of
                  None \<Rightarrow> None
                | Some d \<Rightarrow> put d (scanstring es)))
      else if c \<le> 31 then None
      else put c (scanstring cs))"
  by pat_completeness auto
termination
  by (relation "measure length") auto

text \<open>
  \<^verbatim>\<open>_match_number\<close>: an optional minus sign, \<^verbatim>\<open>0\<close> or a digit from 1 to 9 followed by
  digits, an optional fraction (a point followed by digits), an optional exponent. With
  neither fraction nor exponent the numeral is an int, converted by \<^verbatim>\<open>int\<close>: that
  conversion counts the digits of the numeral and raises when they exceed the limit.
\<close>

fun int_of_digits :: "nat \<Rightarrow> pystr \<Rightarrow> nat" where
  "int_of_digits acc [] = acc"
| "int_of_digits acc (d # ds) = int_of_digits (acc * 10 + (d - 48)) ds"

definition scan_minus :: "pystr \<Rightarrow> pystr \<times> pystr" where
  "scan_minus s = (case s of [] \<Rightarrow> ([], s) | c # cs \<Rightarrow> if c = 45 then ([c], cs) else ([], s))"

definition scan_int :: "pystr \<Rightarrow> (pystr \<times> pystr) option" where
  "scan_int s =
     (case s of
        [] \<Rightarrow> None
      | d # ds \<Rightarrow>
          if d = 48 then Some ([d], ds)
          else if is_digit d then Some (d # takeWhile is_digit ds, dropWhile is_digit ds)
          else None)"

definition scan_frac :: "pystr \<Rightarrow> pystr \<times> pystr" where
  "scan_frac s =
     (case s of
        p # f # fs \<Rightarrow>
          if p = 46 \<and> is_digit f then (p # f # takeWhile is_digit fs, dropWhile is_digit fs)
          else ([], s)
      | _ \<Rightarrow> ([], s))"

definition scan_sign :: "pystr \<Rightarrow> pystr \<times> pystr" where
  "scan_sign s =
     (case s of [] \<Rightarrow> ([], s) | g # gs \<Rightarrow> if g = 43 \<or> g = 45 then ([g], gs) else ([], s))"

definition scan_exp :: "pystr \<Rightarrow> pystr \<times> pystr" where
  "scan_exp s =
     (case s of
        [] \<Rightarrow> ([], s)
      | e # es \<Rightarrow>
          if e = 101 \<or> e = 69 then
            (case scan_sign es of
               (sg, ds) \<Rightarrow>
                 if takeWhile is_digit ds = [] then ([], s)
                 else (e # sg @ takeWhile is_digit ds, dropWhile is_digit ds))
          else ([], s))"

definition match_number :: "nat \<Rightarrow> pystr \<Rightarrow> exn + json \<times> pystr" where
  "match_number limit s =
     (case scan_minus s of
        (sign, s1) \<Rightarrow>
          (case scan_int s1 of
             None \<Rightarrow> Inl JSONDecodeError
           | Some (intpart, s2) \<Rightarrow>
               (case scan_frac s2 of
                  (frac, s3) \<Rightarrow>
                    (case scan_exp s3 of
                       (expo, s4) \<Rightarrow>
                         if frac = [] \<and> expo = [] then
                           if within_digit_limit limit (length intpart) then
                             Inr (JInt (if sign = [] then int (int_of_digits 0 intpart)
                                        else - int (int_of_digits 0 intpart)), s4)
                           else Inl DigitLimitError
                         else Inr (JFloat (sign @ intpart @ frac @ expo), s4)))))"

text \<open>The items of an object are stored into a dict one after the other: a repeated key
  keeps its first position and takes the later value.\<close>

definition dict_of_pairs :: "(pystr \<times> json) list \<Rightarrow> (pystr \<times> json) list" where
  "dict_of_pairs kvs = foldl (\<lambda>d (k, v). AList.update k v d) [] kvs"

text \<open>
  \<^verbatim>\<open>scan_once\<close>, and the loops of \<^verbatim>\<open>_parse_array\<close> and \<^verbatim>\<open>_parse_object\<close>, each entered
  at the first character of an element (of a key). Code points 123 and 125 are the
  braces, 91 and 93 the brackets, 44 the comma, 58 the colon. \<open>room\<close> is the number of
  guarded calls left: at an opening brace or bracket the scanner raises when none is
  left, before it looks at what follows, and the elements are scanned with one less.
\<close>

function scan_once :: "nat \<Rightarrow> nat \<Rightarrow> pystr \<Rightarrow> exn + json \<times> pystr"
  and parse_array :: "nat \<Rightarrow> nat \<Rightarrow> pystr \<Rightarrow> exn + json list \<times> pystr"
  and parse_object :: "nat \<Rightarrow> nat \<Rightarrow> pystr \<Rightarrow> exn + (pystr \<times> json) list \<times> pystr"
where
  "scan_once limit room [] = Inl JSONDecodeError"
| "scan_once limit room (c # cs) =
     (if c = 34 then
        (case scanstring cs of
           None \<Rightarrow> Inl JSONDecodeError
         | Some (s, rest) \<Rightarrow> Inr (JString s, rest))
      else if c = 123 then
        (if room = 0 then Inl RecursionError
         else
           (case skip_ws cs of
              [] \<Rightarrow> Inl JSONDecodeError
            | d # ds \<Rightarrow>
                if d = 125 then Inr (JObject [], ds)
                else (case parse_object limit (room - 1) (d # ds) of
                        Inl e \<Rightarrow> Inl e
                      | Inr (kvs, rest) \<Rightarrow> Inr (JObject (dict_of_pairs kvs), rest))))
      else if c = 91 then
        (if room = 0 then Inl RecursionError
         else
           (case skip_ws cs of
              [] \<Rightarrow> Inl JSONDecodeError
            | d # ds \<Rightarrow>
                if d = 93 then Inr (JArray [], ds)
                else (case parse_array limit (room - 1) (d # ds) of
                        Inl e \<Rightarrow> Inl e
                      | Inr (vs, rest) \<Rightarrow> Inr (JArray vs, rest))))
      else if prefix (S ''null'') (c # cs) then Inr (JNull, drop 4 (c # cs))
      else if prefix (S ''true'') (c # cs) then Inr (JBool True, drop 4 (c # cs))
      else if prefix (S ''false'') (c # cs) then Inr (JBool False, drop 5 (c # cs))
      else if prefix (S ''NaN'') (c # cs) then Inr (JFloat (S ''NaN''), drop 3 (c # cs))
      else if prefix (S ''Infinity'') (c # cs) then Inr (JFloat (S ''Infinity''), drop 8 (c # cs))
      else if prefix (S ''-Infinity'') (c # cs) then Inr (JFloat (S ''-Infinity''), drop 9 (c # cs))
      else match_number limit (c # cs))"
| "parse_array limit room s =
     (case scan_once limit room s of
        Inl e \<Rightarrow> Inl e
      | Inr (v, rest) \<Rightarrow>
          (case skip_ws rest of
             [] \<Rightarrow> Inl JSONDecodeError
           | d # ds \<Rightarrow>
               if d = 93 then Inr ([v], ds)
               else if d = 44 then
                 (case parse_array limit room (skip_ws ds) of
                    Inl e \<Rightarrow> Inl e
                  | Inr (vs, rest') \<Rightarrow> Inr (v # vs, rest'))
               else Inl JSONDecodeError))"
| "parse_object limit room [] = Inl JSONDecodeError"
| "parse_object limit room (q # qs) =
     (if q \<noteq> 34 then Inl JSONDecodeError
      else
        (case scanstring qs of
           None \<Rightarrow> Inl JSONDecodeError
         | Some (key, r1) \<Rightarrow>
             (case skip_ws r1 of
                [] \<Rightarrow> Inl JSONDecodeError
              | c # r2 \<Rightarrow>
                  if c \<noteq> 58 then Inl JSONDecodeError
                  else
                    (case scan_once limit room (skip_ws r2) of
                       Inl e \<Rightarrow> Inl e
                     | Inr (v, r3) \<Rightarrow>
                         (case skip_ws r3 of
                            [] \<Rightarrow> Inl JSONDecodeError
                          | d # ds \<Rightarrow>
                              if d = 125 then Inr ([(key, v)], ds)
                              else if d = 44 then
                                (case parse_object limit room (skip_ws ds) of
                                   Inl e \<Rightarrow> Inl e
                                 | Inr (kvs, r4) \<Rightarrow> Inr ((key, v) # kvs, r4))
                              else Inl JSONDecodeError)))))"
  by pat_completeness auto

text \<open>
  Termination: every scanner leaves less than it was given. For \<open>scan_once\<close> this is
  first shown where the function is defined, which is then everywhere.
\<close>

lemma length_skip_ws: "length (skip_ws s) \<le> length s"
  unfolding skip_ws_def by (rule length_dropWhile_le)

lemma skip_ws_Cons_length: "skip_ws s = d # ds \<Longrightarrow> length ds < length s"
  using length_skip_ws [of s] by simp


lemma put_Some: "put c r = Some (s, rest) \<longleftrightarrow> (\<exists>s'. r = Some (s', rest) \<and> s = c # s')"
  by (auto simp: put_def split: option.splits)

lemma scanstring_shorter: "scanstring s = Some (k, r) \<Longrightarrow> length r < length s"
proof (induction "length s" arbitrary: s k r rule: less_induct)
  case less
  have IH: "length r' < length s"
    if "scanstring t = Some (k', r')" "length t < length s" for t k' r'
    using less.hyps [OF that(2) that(1)] that(2) by simp
  show ?case
  proof (cases s)
    case Nil
    with less.prems show ?thesis by simp
  next
    case (Cons c cs)
    consider "c = 34" | "c = 92" | "c \<noteq> 34" "c \<noteq> 92" by blast
    then show ?thesis
    proof cases
      case 1
      with less.prems Cons show ?thesis by simp
    next
      case 2
      show ?thesis
      proof (cases cs)
        case Nil
        with less.prems Cons 2 show ?thesis by simp
      next
        case (Cons e es)
        have len: "length (drop n es) < length s" for n
          using \<open>s = c # cs\<close> Cons by simp
        have len': "length es < length s"
          using \<open>s = c # cs\<close> Cons by simp
        from less.prems \<open>s = c # cs\<close> 2 Cons
        have "(\<exists>k'. scanstring (drop 10 es) = Some (k', r)) \<or>
              (\<exists>k'. scanstring (drop 4 es) = Some (k', r)) \<or>
              (\<exists>k'. scanstring es = Some (k', r))"
          by (simp add: put_Some split: if_splits option.splits) blast+
        with IH len len' show ?thesis by blast
      qed
    next
      case 3
      with less.prems Cons have "\<exists>k'. scanstring cs = Some (k', r)"
        by (auto simp: put_Some split: if_splits)
      with IH Cons show ?thesis by auto
    qed
  qed
qed

lemma scan_minus_lexeme: "scan_minus s = (l, r) \<Longrightarrow> s = l @ r"
  by (auto simp: scan_minus_def split: list.splits if_splits)

lemma scan_int_lexeme: "scan_int s = Some (l, r) \<Longrightarrow> s = l @ r \<and> l \<noteq> []"
  by (auto simp: scan_int_def split: list.splits if_splits)

lemma scan_frac_lexeme: "scan_frac s = (l, r) \<Longrightarrow> s = l @ r"
  by (auto simp: scan_frac_def split: list.splits if_splits)

lemma scan_sign_lexeme: "scan_sign s = (l, r) \<Longrightarrow> s = l @ r"
  by (auto simp: scan_sign_def split: list.splits if_splits)

lemma scan_exp_lexeme: "scan_exp s = (l, r) \<Longrightarrow> s = l @ r"
proof (cases s)
  case Nil
  then show "scan_exp s = (l, r) \<Longrightarrow> s = l @ r" by (simp add: scan_exp_def)
next
  case (Cons e es)
  obtain sg ds where sg: "scan_sign es = (sg, ds)" by (cases "scan_sign es")
  from scan_sign_lexeme [OF sg] have es: "es = sg @ ds" .
  from es have "es = sg @ takeWhile is_digit ds @ dropWhile is_digit ds"
    by (simp only: takeWhile_dropWhile_id)
  then show "scan_exp s = (l, r) \<Longrightarrow> s = l @ r"
    using Cons sg by (auto simp: scan_exp_def split: if_splits)
qed

lemma match_number_lexeme:
  assumes "match_number limit s = Inr (v, r)"
  shows "\<exists>l. l \<noteq> [] \<and> s = l @ r"
proof -
  obtain sign s1 where m: "scan_minus s = (sign, s1)" by (cases "scan_minus s")
  from assms have "scan_int s1 \<noteq> None"
    by (cases "scan_int s1") (simp_all add: match_number_def m)
  then obtain ip s2 where i: "scan_int s1 = Some (ip, s2)" by auto
  obtain fr s3 where f: "scan_frac s2 = (fr, s3)" by (cases "scan_frac s2")
  obtain ex s4 where e: "scan_exp s3 = (ex, s4)" by (cases "scan_exp s3")
  from assms have r: "r = s4"
    by (simp add: match_number_def m i f e split: if_splits)
  have s: "s = sign @ s1" using m by (rule scan_minus_lexeme)
  have s1: "s1 = ip @ s2" and ip: "ip \<noteq> []" using scan_int_lexeme [OF i] by blast+
  have s2: "s2 = fr @ s3" using f by (rule scan_frac_lexeme)
  have s3: "s3 = ex @ s4" using e by (rule scan_exp_lexeme)
  have "s = (sign @ ip @ fr @ ex) @ r"
    by (simp only: s s1 s2 s3 r append_assoc)
  moreover have "sign @ ip @ fr @ ex \<noteq> []" using ip by simp
  ultimately have "sign @ ip @ fr @ ex \<noteq> [] \<and> s = (sign @ ip @ fr @ ex) @ r" by (rule conjI [rotated])
  then show ?thesis by (rule exI)
qed

lemma match_number_shorter:
  assumes "match_number limit s = Inr (v, r)"
  shows "length r < length s"
proof -
  from match_number_lexeme [OF assms] obtain l where "l \<noteq> []" "s = l @ r" by blast
  then show ?thesis by simp
qed

lemma scan_shorter_dom:
  shows "scan_once_parse_array_parse_object_dom (Inl (limit, room, s)) \<Longrightarrow>
           scan_once limit room s = Inr (v, r) \<Longrightarrow> length r < length s"
    and "scan_once_parse_array_parse_object_dom (Inr (Inl (limit1, room1, s1))) \<Longrightarrow>
           parse_array limit1 room1 s1 = Inr (vs, r1) \<Longrightarrow> length r1 < length s1"
    and "scan_once_parse_array_parse_object_dom (Inr (Inr (limit2, room2, s2))) \<Longrightarrow>
           parse_object limit2 room2 s2 = Inr (kvs, r2) \<Longrightarrow> length r2 < length s2"
proof (induct arbitrary: v r and vs r1 and kvs r2
    rule: scan_once_parse_array_parse_object.pinduct)
  case 1
  then show ?case by (simp add: scan_once.psimps)
next
  case (2 limit room c cs)
  note eq = scan_once.psimps(2) [OF "2.hyps"(1)]
  consider (str) "c = 34" | (obj) "c \<noteq> 34" "c = 123" | (arr) "c \<noteq> 34" "c \<noteq> 123" "c = 91"
    | (other) "c \<noteq> 34" "c \<noteq> 123" "c \<noteq> 91" by blast
  then show ?case
  proof cases
    case str
    with "2.prems" eq obtain k where "scanstring cs = Some (k, r)"
      by (auto split: option.splits)
    from scanstring_shorter [OF this] show ?thesis by simp
  next
    case obj
    from "2.prems" eq obj have room: "room \<noteq> 0" by (auto split: if_splits)
    show ?thesis
    proof (cases "skip_ws cs")
      case Nil
      with "2.prems" eq obj room show ?thesis by simp
    next
      case (Cons d ds)
      have le: "length ds < length cs" using Cons by (rule skip_ws_Cons_length)
      show ?thesis
      proof (cases "d = 125")
        case True
        with "2.prems" eq obj room Cons le show ?thesis by simp
      next
        case False
        with "2.prems" eq obj room Cons obtain kvs' where
          "parse_object limit (room - 1) (d # ds) = Inr (kvs', r)"
          by (auto split: sum.splits)
        from "2.hyps"(2) [OF obj room Cons False this] le show ?thesis by simp
      qed
    qed
  next
    case arr
    from "2.prems" eq arr have room: "room \<noteq> 0" by (auto split: if_splits)
    show ?thesis
    proof (cases "skip_ws cs")
      case Nil
      with "2.prems" eq arr room show ?thesis by simp
    next
      case (Cons d ds)
      have le: "length ds < length cs" using Cons by (rule skip_ws_Cons_length)
      show ?thesis
      proof (cases "d = 93")
        case True
        with "2.prems" eq arr room Cons le show ?thesis by simp
      next
        case False
        with "2.prems" eq arr room Cons obtain vs' where
          "parse_array limit (room - 1) (d # ds) = Inr (vs', r)"
          by (auto split: sum.splits)
        from "2.hyps"(3) [OF arr room Cons False this] le show ?thesis by simp
      qed
    qed
  next
    case other
    with "2.prems" eq
    have "r = drop 4 (c # cs) \<or> r = drop 5 (c # cs) \<or> r = drop 3 (c # cs) \<or>
          r = drop 8 (c # cs) \<or> r = drop 9 (c # cs) \<or>
          (\<exists>n. match_number limit (c # cs) = Inr (n, r))"
      by (simp split: if_splits)
    then show ?thesis by (auto dest: match_number_shorter)
  qed
next
  case (3 limit room s)
  note eq = parse_array.psimps [OF "3.hyps"(1)]
  from "3.prems" eq obtain v rest where v: "scan_once limit room s = Inr (v, rest)"
    by (cases "scan_once limit room s") auto
  from "3.hyps"(2) [OF v] have rest: "length rest < length s" .
  show ?case
  proof (cases "skip_ws rest")
    case Nil
    with "3.prems" eq v show ?thesis by simp
  next
    case (Cons d ds)
    have le: "length ds < length rest" using Cons by (rule skip_ws_Cons_length)
    consider "d = 93" | "d \<noteq> 93" "d = 44" | "d \<noteq> 93" "d \<noteq> 44" by blast
    then show ?thesis
    proof cases
      case 1
      with "3.prems" eq v Cons le rest show ?thesis by simp
    next
      case 2
      with "3.prems" eq v Cons obtain vs' where
        "parse_array limit room (skip_ws ds) = Inr (vs', r1)"
        by (auto split: sum.splits)
      from "3.hyps"(3) [OF v refl Cons 2 this] length_skip_ws [of ds] le rest
      show ?thesis by simp
    next
      case 3
      with "3.prems" eq v Cons show ?thesis by simp
    qed
  qed
next
  case 4
  then show ?case by (simp add: parse_object.psimps)
next
  case (5 limit room q qs)
  note eq = parse_object.psimps(2) [OF "5.hyps"(1)]
  from "5.prems" eq have q: "\<not> q \<noteq> 34" by (auto split: if_splits)
  from "5.prems" eq q obtain key y where k: "scanstring qs = Some (key, y)"
    by (cases "scanstring qs") auto
  from scanstring_shorter [OF k] have y: "length y < length qs" .
  from "5.prems" eq q k obtain c r2' where c: "skip_ws y = c # r2'"
    by (cases "skip_ws y") auto
  have r2': "length r2' < length y" using c by (rule skip_ws_Cons_length)
  from "5.prems" eq q k c have c58: "\<not> c \<noteq> 58" by (auto split: if_splits)
  from "5.prems" eq q k c c58 obtain v r3 where
    v: "scan_once limit room (skip_ws r2') = Inr (v, r3)"
    by (cases "scan_once limit room (skip_ws r2')") auto
  from "5.hyps"(2) [OF q k refl c c58 v] length_skip_ws [of r2']
  have r3: "length r3 < length r2'" by simp
  show ?case
  proof (cases "skip_ws r3")
    case Nil
    with "5.prems" eq q k c c58 v show ?thesis by simp
  next
    case (Cons d ds)
    have le: "length ds < length r3" using Cons by (rule skip_ws_Cons_length)
    consider "d = 125" | "d \<noteq> 125" "d = 44" | "d \<noteq> 125" "d \<noteq> 44" by blast
    then show ?thesis
    proof cases
      case 1
      with "5.prems" eq q k c c58 v Cons le r3 r2' y show ?thesis by simp
    next
      case 2
      with "5.prems" eq q k c c58 v Cons obtain kvs' where
        "parse_object limit room (skip_ws ds) = Inr (kvs', r2)"
        by (auto split: sum.splits)
      from "5.hyps"(3) [OF q k refl c c58 v refl Cons 2 this] length_skip_ws [of ds] le r3 r2' y
      show ?thesis by simp
    next
      case 3
      with "5.prems" eq q k c c58 v Cons show ?thesis by simp
    qed
  qed
qed

lemma scan_total: "All scan_once_parse_array_parse_object_dom"
proof (relation "measure (\<lambda>x. case x of
          Inl (limit, room, s) \<Rightarrow> 2 * length s
        | Inr (Inl (limit, room, s)) \<Rightarrow> 2 * length s + 1
        | Inr (Inr (limit, room, s)) \<Rightarrow> 2 * length s + 1)", goal_cases)
  case 1
  show ?case by simp
next
  case (2 limit room c cs d ds)
  then show ?case using skip_ws_Cons_length [of cs d ds] by simp
next
  case (3 limit room c cs d ds)
  then show ?case using skip_ws_Cons_length [of cs d ds] by simp
next
  case (4 limit room s)
  show ?case by simp
next
  case (5 limit room s x2 v rest d ds)
  from 5(1,2) have "scan_once limit room s = Inr (v, rest)" by simp
  from scan_shorter_dom(1) [OF 5(6) this] skip_ws_Cons_length [OF 5(3)] length_skip_ws [of ds]
  show ?case by simp
next
  case (6 limit room q qs x2 key y c r2)
  from 6(2,3) have "scanstring qs = Some (key, y)" by simp
  from scanstring_shorter [OF this] skip_ws_Cons_length [OF 6(4)] length_skip_ws [of r2]
  show ?case by simp
next
  case (7 limit room q qs x2 key y c r2 x2a v r3 d ds)
  from 7(2,3) have "scanstring qs = Some (key, y)" by simp
  moreover from 7(6,7) have "scan_once limit room (skip_ws r2) = Inr (v, r3)" by simp
  ultimately show ?case
    using scanstring_shorter [of qs key y] skip_ws_Cons_length [OF 7(4)] length_skip_ws [of r2]
      scan_shorter_dom(1) [OF 7(11), of v r3] skip_ws_Cons_length [OF 7(8)]
      length_skip_ws [of ds]
    by simp
qed

termination scan_once
  by (rule scan_total)


text \<open>\<^verbatim>\<open>json.loads\<close>: a leading byte order mark (code point 65279) is refused, white
  space around the value is skipped, and anything left after the value is an error.\<close>

definition json_loads :: "nat \<Rightarrow> nat \<Rightarrow> pystr \<Rightarrow> exn + json" where
  "json_loads limit room s =
     (if prefix [65279] s then Inl JSONDecodeError
      else
        (case scan_once limit room (skip_ws s) of
           Inl e \<Rightarrow> Inl e
         | Inr (obj, rest) \<Rightarrow>
             if skip_ws rest = [] then Inr obj else Inl JSONDecodeError))"

section \<open>The search for a fenced block\<close>

text \<open>
  \<^verbatim>\<open>re.search(r'```json\s*(.*?)\s*```', response_text, re.DOTALL)\<close>, and group 1 of the
  match. The functions follow the backtracking matcher. \<open>is_space\<close> is the class
  \<^verbatim>\<open>\s\<close> of a \<^verbatim>\<open>str\<close> pattern (the code points \<^verbatim>\<open>str.isspace\<close> accepts); with
  \<^verbatim>\<open>re.DOTALL\<close> the dot matches every character. Code point 96 is the backtick.
\<close>

definition is_space :: "codepoint \<Rightarrow> bool" where
  "is_space c =
     ((9 \<le> c \<and> c \<le> 13) \<or> (28 \<le> c \<and> c \<le> 32) \<or> c = 133 \<or> c = 160 \<or> c = 5760 \<or>
      (8192 \<le> c \<and> c \<le> 8202) \<or> c = 8232 \<or> c = 8233 \<or> c = 8239 \<or> c = 8287 \<or>
      c = 12288)"

definition fence :: pystr where
  "fence = [96, 96, 96]"

definition fence_json :: pystr where
  "fence_json = fence @ S ''json''"

text \<open>\<^verbatim>\<open>\s*```\<close> at the start of the text: the greedy star takes a space when it can
  and gives it back when the rest does not match.\<close>

fun ws_then_fence :: "pystr \<Rightarrow> bool" where
  "ws_then_fence [] = False"
| "ws_then_fence (c # cs) = ((is_space c \<and> ws_then_fence cs) \<or> prefix fence (c # cs))"

text \<open>\<^verbatim>\<open>(.*?)\s*```\<close>: the lazy group is tried empty first and grows by one character
  at a time; the result is the group.\<close>

fun lazy_group :: "pystr \<Rightarrow> pystr option" where
  "lazy_group [] = None"
| "lazy_group (c # cs) =
     (if ws_then_fence (c # cs) then Some []
      else (case lazy_group cs of None \<Rightarrow> None | Some g \<Rightarrow> Some (c # g)))"

text \<open>\<^verbatim>\<open>\s*(.*?)\s*```\<close>, what follows the opening fence.\<close>

fun after_open :: "pystr \<Rightarrow> pystr option" where
  "after_open [] = lazy_group []"
| "after_open (c # cs) =
     (if is_space c then
        (case after_open cs of Some g \<Rightarrow> Some g | None \<Rightarrow> lazy_group (c # cs))
      else lazy_group (c # cs))"

text \<open>The search tries every start position from the left.\<close>

fun re_search_fence :: "pystr \<Rightarrow> pystr option" where
  "re_search_fence [] = None"
| "re_search_fence (c # cs) =
     (case (if prefix fence_json (c # cs) then after_open (drop 7 (c # cs)) else None) of
        Some g \<Rightarrow> Some g
      | None \<Rightarrow> re_search_fence cs)"

text \<open>
  The block that is searched for, in words: the text between the first fence tagged
  \<^verbatim>\<open>json\<close> and the next fence after it, without the white space at its two ends. There
  is none when the reply has no tagged fence, or no fence after the first tagged one.
  \<open>find_before n t\<close> is what precedes the first occurrence of \<open>n\<close> in \<open>t\<close>.
\<close>

fun find_before :: "pystr \<Rightarrow> pystr \<Rightarrow> pystr option" where
  "find_before needle [] = (if needle = [] then Some [] else None)"
| "find_before needle (c # cs) =
     (if prefix needle (c # cs) then Some []
      else map_option (Cons c) (find_before needle cs))"

definition strip_space :: "pystr \<Rightarrow> pystr" where
  "strip_space s = rev (dropWhile is_space (rev (dropWhile is_space s)))"

definition spec_fenced_block :: "pystr \<Rightarrow> pystr option" where
  "spec_fenced_block text =
     (case find_after fence_json text of
        None \<Rightarrow> None
      | Some rest \<Rightarrow> map_option strip_space (find_before fence rest))"

section \<open>The record library: construction and JSON rendering of a suite\<close>

text \<open>
  \<^verbatim>\<open>TestSuite(**parsed_data)\<close>. Unpacking a value that is no dict raises \<^verbatim>\<open>TypeError\<close>.
  Otherwise every declared field is looked up by its name and validated against its
  type, fields that are not declared are ignored, and the construction fails with the
  validation error when a field is missing or rejected. A \<^verbatim>\<open>str\<close> field takes a string, a
  \<^verbatim>\<open>List[str]\<close> field a list of strings and \<^verbatim>\<open>List[TestScenario]\<close> a list of dicts
  that are scenarios; none of these fields is constrained, so their strings are taken as
  they are. An \<^verbatim>\<open>int\<close> field takes an integer; which other values the library converts
  to an integer (booleans, numeric strings, floats without a fraction) depends on its
  version and is the parameter \<open>lax_int\<close>.
\<close>

definition validate_str :: "json \<Rightarrow> pystr option" where
  "validate_str j = (case j of JString s \<Rightarrow> Some s | _ \<Rightarrow> None)"

definition validate_str_list :: "json \<Rightarrow> pystr list option" where
  "validate_str_list j = (case j of JArray xs \<Rightarrow> those (map validate_str xs) | _ \<Rightarrow> None)"

definition validate_int :: "(json \<rightharpoonup> int) \<Rightarrow> json \<Rightarrow> int option" where
  "validate_int lax_int j = (case j of JInt n \<Rightarrow> Some n | _ \<Rightarrow> lax_int j)"

definition field :: "(pystr \<times> json) list \<Rightarrow> string \<Rightarrow> (json \<Rightarrow> 'a option) \<Rightarrow> 'a option" where
  "field kvs name validate =
     (case map_of kvs (S name) of None \<Rightarrow> None | Some j \<Rightarrow> validate j)"

definition validate_TestScenario :: "json \<Rightarrow> TestScenario option" where
  "validate_TestScenario j =
     (case j of
        JObject kvs \<Rightarrow>
          (case (field kvs ''scenario_id'' validate_str,
                 field kvs ''title'' validate_str,
                 field kvs ''description'' validate_str,
                 field kvs ''preconditions'' validate_str_list,
                 field kvs ''test_steps'' validate_str_list,
                 field kvs ''expected_result'' validate_str,
                 field kvs ''test_type'' validate_str,
                 field kvs ''priority'' validate_str) of
             (Some sid, Some ttl, Some descr, Some pre, Some steps, Some expected, Some ty,
              Some prio) \<Rightarrow>
               Some \<lparr>scenario_id = sid, title = ttl, description = descr, preconditions = pre,
                     test_steps = steps, expected_result = expected, test_type = ty,
                     priority = prio\<rparr>
           | _ \<Rightarrow> None)
      | _ \<Rightarrow> None)"

definition validate_TestScenario_list :: "json \<Rightarrow> TestScenario list option" where
  "validate_TestScenario_list j =
     (case j of JArray xs \<Rightarrow> those (map validate_TestScenario xs) | _ \<Rightarrow> None)"

definition TestSuite_init :: "(json \<rightharpoonup> int) \<Rightarrow> json \<Rightarrow> exn + TestSuite" where
  "TestSuite_init lax_int parsed_data =
     (case parsed_data of
        JObject kvs \<Rightarrow>
          (case (field kvs ''user_story'' validate_str,
                 field kvs ''test_scenarios'' validate_TestScenario_list,
                 field kvs ''coverage_areas'' validate_str_list,
                 field kvs ''total_scenarios'' (validate_int lax_int)) of
             (Some us, Some scenarios, Some areas, Some n) \<Rightarrow>
               Inr \<lparr>user_story = us, test_scenarios = scenarios, coverage_areas = areas,
                    total_scenarios = n\<rparr>
           | _ \<Rightarrow> Inl ValidationError)
      | _ \<Rightarrow> Inl TypeError)"

text \<open>
  \<^verbatim>\<open>model_dump_json(indent=2)\<close>: the suite as a JSON object with the fields in their
  declared order, printed with a member or element per line, each level indented by two
  more spaces; an empty list is \<^verbatim>\<open>[]\<close>. In a string the quote, the backslash and the
  control characters are escaped, everything else is written as it is. The rendering is
  UTF-8 text: when a string of the suite holds a lone surrogate the library raises
  \<open>PydanticSerializationError\<close>. \<open>suite_strings\<close> lists the strings of a suite.
\<close>

definition scenario_strings :: "TestScenario \<Rightarrow> pystr list" where
  "scenario_strings sc =
     [scenario_id sc, title sc, description sc] @ preconditions sc @ test_steps sc @
     [expected_result sc, test_type sc, priority sc]"

definition suite_strings :: "TestSuite \<Rightarrow> pystr list" where
  "suite_strings ts =
     user_story ts # concat (map scenario_strings (test_scenarios ts)) @ coverage_areas ts"

definition dump_TestScenario :: "TestScenario \<Rightarrow> json" where
  "dump_TestScenario sc =
     JObject
       [(S ''scenario_id'', JString (scenario_id sc)),
        (S ''title'', JString (title sc)),
        (S ''description'', JString (description sc)),
        (S ''preconditions'', JArray (map JString (preconditions sc))),
        (S ''test_steps'', JArray (map JString (test_steps sc))),
        (S ''expected_result'', JString (expected_result sc)),
        (S ''test_type'', JString (test_type sc)),
        (S ''priority'', JString (priority sc))]"

definition model_dump :: "TestSuite \<Rightarrow> json" where
  "model_dump ts =
     JObject
       [(S ''user_story'', JString (user_story ts)),
        (S ''test_scenarios'', JArray (map dump_TestScenario (test_scenarios ts))),
        (S ''coverage_areas'', JArray (map JString (coverage_areas ts))),
        (S ''total_scenarios'', JInt (total_scenarios ts))]"

definition hex_digit :: "nat \<Rightarrow> codepoint" where
  "hex_digit n = (if n < 10 then 48 + n else 87 + n)"

definition escape_char :: "codepoint \<Rightarrow> pystr" where
  "escape_char c =
     (if c = 34 then [92, 34]
      else if c = 92 then [92, 92]
      else if c = 8 then [92, 98]
      else if c = 9 then [92, 116]
      else if c = 10 then [92, 110]
      else if c = 12 then [92, 102]
      else if c = 13 then [92, 114]
      else if c < 32 then [92, 117, 48, 48, hex_digit (c div 16), hex_digit (c mod 16)]
      else [c])"

definition json_string :: "pystr \<Rightarrow> pystr" where
  "json_string s = [34] @ concat (map escape_char s) @ [34]"

definition indentation :: "nat \<Rightarrow> nat \<Rightarrow> pystr" where
  "indentation width level = replicate (width * level) 32"

fun json_pretty :: "nat \<Rightarrow> nat \<Rightarrow> json \<Rightarrow> pystr"
  and pretty_elements :: "nat \<Rightarrow> nat \<Rightarrow> json list \<Rightarrow> pystr"
  and pretty_members :: "nat \<Rightarrow> nat \<Rightarrow> (pystr \<times> json) list \<Rightarrow> pystr"
where
  "json_pretty w n JNull = S ''null''"
| "json_pretty w n (JBool b) = (if b then S ''true'' else S ''false'')"
| "json_pretty w n (JInt i) = str_int i"
| "json_pretty w n (JFloat t) = t"
| "json_pretty w n (JString s) = json_string s"
| "json_pretty w n (JArray []) = [91, 93]"
| "json_pretty w n (JArray (x # xs)) =
     [91, 10] @ indentation w (Suc n) @ pretty_elements w (Suc n) (x # xs) @
     [10] @ indentation w n @ [93]"
| "json_pretty w n (JObject []) = [123, 125]"
| "json_pretty w n (JObject (kv # kvs)) =
     [123, 10] @ indentation w (Suc n) @ pretty_members w (Suc n) (kv # kvs) @
     [10] @ indentation w n @ [125]"
| "pretty_elements w n [] = []"
| "pretty_elements w n [x] = json_pretty w n x"
| "pretty_elements w n (x # y # ys) =
     json_pretty w n x @ [44, 10] @ indentation w n @ pretty_elements w n (y # ys)"
| "pretty_members w n [] = []"
| "pretty_members w n [(k, v)] = json_string k @ [58, 32] @ json_pretty w n v"
| "pretty_members w n ((k, v) # kv # kvs) =
     json_string k @ [58, 32] @ json_pretty w n v @ [44, 10] @ indentation w n @
     pretty_members w n (kv # kvs)"

definition model_dump_json :: "nat \<Rightarrow> TestSuite \<Rightarrow> exn + pystr" where
  "model_dump_json indent ts =
     (if list_ex has_surrogate (suite_strings ts) then Inl PydanticSerializationError
      else Inr (json_pretty indent 0 (model_dump ts)))"

section \<open>The built-in conversions of strings to numbers\<close>

text \<open>
  \<^verbatim>\<open>int(s)\<close> and \<^verbatim>\<open>float(s)\<close> first replace every Unicode space by a blank and every
  Unicode decimal digit by its ASCII digit (\<open>decimal_zeros\<close> lists the digit zero of
  every script, Unicode 14), any other character outside ASCII by a question mark, and
  strip the white space of C at both ends. An underscore may stand between two digits.
\<close>

definition decimal_zeros :: "codepoint list" where
  "decimal_zeros =
     [48, 1632, 1776, 1984, 2406, 2534, 2662, 2790, 2918, 3046, 3174, 3302, 3430, 3558, 3664,
      3792, 3872, 4160, 4240, 6112, 6160, 6470, 6608, 6784, 6800, 6992, 7088, 7232, 7248,
      42528, 43216, 43264, 43472, 43504, 43600, 44016, 65296, 66720, 68912, 69734, 69872,
      69942, 70096, 70384, 70736, 70864, 71248, 71360, 71472, 71904, 72016, 72784, 73040,
      73120, 92768, 92864, 93008, 120782, 120792, 120802, 120812, 120822, 123200, 123632,
      125264, 130032]"

definition decimal_value :: "codepoint \<Rightarrow> nat option" where
  "decimal_value c =
     (case filter (\<lambda>z. z \<le> c \<and> c < z + 10) decimal_zeros of
        [] \<Rightarrow> None
      | z # _ \<Rightarrow> Some (c - z))"

definition to_ascii :: "codepoint \<Rightarrow> codepoint" where
  "to_ascii c =
     (if c < 127 then c
      else if is_space c then 32
      else (case decimal_value c of None \<Rightarrow> 63 | Some d \<Rightarrow> 48 + d))"

definition is_c_space :: "codepoint \<Rightarrow> bool" where
  "is_c_space c = (c = 32 \<or> (9 \<le> c \<and> c \<le> 13))"

definition strip_c :: "pystr \<Rightarrow> pystr" where
  "strip_c s = rev (dropWhile is_c_space (rev (dropWhile is_c_space s)))"

fun int_body :: "nat \<Rightarrow> pystr \<Rightarrow> nat option" where
  "int_body acc [] = Some acc"
| "int_body acc [c] = (if is_digit c then Some (acc * 10 + (c - 48)) else None)"
| "int_body acc (c # d # ds) =
     (if is_digit c then int_body (acc * 10 + (c - 48)) (d # ds)
      else if c = 95 \<and> is_digit d then int_body (acc * 10 + (d - 48)) ds
      else None)"

definition py_int :: "pystr \<Rightarrow> exn + int" where
  "py_int s =
     (case scan_sign (strip_c (map to_ascii s)) of
        (sg, u) \<Rightarrow>
          (case u of
             [] \<Rightarrow> Inl (ValueError (S ''invalid literal for int() with base 10: '') (ReprOf s))
           | d # ds \<Rightarrow>
               (case (if is_digit d then int_body (d - 48) ds else None) of
                  None \<Rightarrow>
                    Inl (ValueError (S ''invalid literal for int() with base 10: '') (ReprOf s))
                | Some n \<Rightarrow> Inr (if sg = [45] then - int n else int n))))"

text \<open>
  A float is kept as the ASCII numeral that denotes it, without its underscores:
  \<^verbatim>\<open>inf\<close>, \<^verbatim>\<open>infinity\<close> or \<^verbatim>\<open>nan\<close> in any case, or digits with an optional point and
  an optional exponent, after an optional sign.
\<close>

datatype pyfloat = Float pystr

fun underscores_ok :: "codepoint \<Rightarrow> pystr \<Rightarrow> bool" where
  "underscores_ok prev [] = (prev \<noteq> 95)"
| "underscores_ok prev (c # cs) =
     (if c = 95 then is_digit prev \<and> underscores_ok c cs
      else (prev \<noteq> 95 \<or> is_digit c) \<and> underscores_ok c cs)"

definition lower :: "codepoint \<Rightarrow> codepoint" where
  "lower c = (if 65 \<le> c \<and> c \<le> 90 then c + 32 else c)"

definition float_syntax :: "pystr \<Rightarrow> bool" where
  "float_syntax s =
     (case scan_sign s of
        (sg, u) \<Rightarrow>
          if map lower u \<in> {S ''inf'', S ''infinity'', S ''nan''} then True
          else
            (let ip = takeWhile is_digit u;
                 r = dropWhile is_digit u;
                 fp = (case r of [] \<Rightarrow> [] | p # fs \<Rightarrow> if p = 46 then takeWhile is_digit fs else []);
                 r = (case r of [] \<Rightarrow> [] | p # fs \<Rightarrow> if p = 46 then dropWhile is_digit fs else r)
             in if ip = [] \<and> fp = [] then False
                else
                  (case r of
                     [] \<Rightarrow> True
                   | e # es \<Rightarrow>
                       if e = 101 \<or> e = 69 then
                         (case scan_sign es of (sg', ds) \<Rightarrow> ds \<noteq> [] \<and> list_all is_digit ds)
                       else False)))"

definition py_float :: "pystr \<Rightarrow> exn + pyfloat" where
  "py_float s =
     (let t = strip_c (map to_ascii s);
          u = filter (\<lambda>c. c \<noteq> 95) t
      in if underscores_ok 0 t \<and> float_syntax u then Inr (Float u)
         else Inl (ValueError (S ''could not convert string to float: '') (ReprOf s)))"

section \<open>test\_case\_generator.py: the generator\<close>

text \<open>
  The state of a \<^verbatim>\<open>TestCaseGenerator\<close>. \<open>llm\<close> is the chat client: \<^verbatim>\<open>llm.invoke\<close> takes
  the two messages and returns the content of the reply or raises. \<open>format_instructions\<close>
  is the text the output parser of the suite gives for the prompt.
\<close>

record TestCaseGenerator =
  api_key :: pystr
  model_name :: pystr
  temperature :: pyfloat
  max_tokens :: int
  llm :: "pystr list \<Rightarrow> exn + pystr"
  format_instructions :: pystr

text \<open>
  \<^verbatim>\<open>__init__\<close>. \<open>environ\<close> is the environment of the process after \<^verbatim>\<open>load_dotenv()\<close>,
  \<open>ChatOpenAI\<close> builds the client from the model name, the temperature, the token limit
  and the key. \<^verbatim>\<open>not self.api_key\<close> holds for a missing key and for an empty one.
\<close>

definition getenv :: "(pystr \<rightharpoonup> pystr) \<Rightarrow> string \<Rightarrow> string \<Rightarrow> pystr" where
  "getenv environ name dflt = (case environ (S name) of None \<Rightarrow> S dflt | Some v \<Rightarrow> v)"

definition TestCaseGenerator_init ::
  "(pystr \<Rightarrow> pyfloat \<Rightarrow> int \<Rightarrow> pystr \<Rightarrow> pystr list \<Rightarrow> exn + pystr) \<Rightarrow> pystr \<Rightarrow>
   (pystr \<rightharpoonup> pystr) \<Rightarrow> exn + TestCaseGenerator" where
  "TestCaseGenerator_init ChatOpenAI instructions environ =
     (case environ (S ''OPENAI_API_KEY'') of
        None \<Rightarrow> Inl (ValueError (S ''OPENAI_API_KEY not found in environment variables'') NoDetail)
      | Some key \<Rightarrow>
          if key = [] then
            Inl (ValueError (S ''OPENAI_API_KEY not found in environment variables'') NoDetail)
          else
            (let name = getenv environ ''MODEL_NAME'' ''gpt-3.5-turbo'' in
             case py_float (getenv environ ''TEMPERATURE'' ''0.3'') of
               Inl e \<Rightarrow> Inl e
             | Inr temp \<Rightarrow>
                 (case py_int (getenv environ ''MAX_TOKENS'' ''2000'') of
                    Inl e \<Rightarrow> Inl e
                  | Inr tokens \<Rightarrow>
                      Inr \<lparr>api_key = key, model_name = name, temperature = temp,
                           max_tokens = tokens, llm = ChatOpenAI name temp tokens key,
                           format_instructions = instructions\<rparr>)))"

definition create_system_prompt :: pystr where
  "create_system_prompt =
     str_join [10]
       [S ''You are an expert QA engineer and test case generator. Your task is to analyze user stories and generate comprehensive test scenarios.'',
        [],
        S ''For each user story, you should:'',
        S ''1. Identify all testable aspects and edge cases'',
        S ''2. Create positive, negative, and boundary test scenarios'',
        S ''3. Include proper test steps, preconditions, and expected results'',
        S ''4. Prioritize tests based on risk and importance'',
        S ''5. Ensure good test coverage'',
        [],
        S ''Generate test scenarios that cover:'',
        S ''- Happy path scenarios (positive testing)'',
        S ''- Error scenarios (negative testing)'',
        S ''- Boundary conditions and edge cases'',
        S ''- Integration points'',
        S ''- User experience aspects'',
        S ''- Performance considerations (when relevant)'',
        S ''- Security aspects (when relevant)'',
        [],
        S ''Each test scenario should be:'',
        S ''- Clear and unambiguous'',
        S ''- Executable by any QA tester'',
        S ''- Include specific steps and expected outcomes'',
        S ''- Properly categorized by type and priority'']"

definition create_user_prompt :: "TestCaseGenerator \<Rightarrow> UserStoryInput \<Rightarrow> pystr" where
  "create_user_prompt self validated_input =
     (let prompt =
            S ''Please generate comprehensive test scenarios for the following user story:'' @
            [10, 10] @ S ''**User Story:** '' @ story validated_input @ [10];
          prompt =
            (case acceptance_criteria validated_input of
               None \<Rightarrow> prompt
             | Some [] \<Rightarrow> prompt
             | Some criteria \<Rightarrow>
                 prompt @ [10] @ S ''**Acceptance Criteria:**'' @ [10] @
                 str_join [10] (map (\<lambda>c. S ''- '' @ c) criteria) @ [10])
      in prompt @ [10] @
         S ''Please provide a complete test suite in the following JSON format:'' @ [10] @
         format_instructions self @ [10, 10] @
         S ''Generate 5-8 diverse test scenarios covering different testing aspects (positive, negative, edge cases, etc.).'' @
         [10] @
         S ''Make sure each scenario has a unique ID, clear steps, and specific expected results.'')"

text \<open>
  \<^verbatim>\<open>_parse_ai_response\<close>. \<open>extract_json_text\<close> is the choice of \<^verbatim>\<open>json_text\<close>: group 1
  of the match when the search finds one, the whole reply otherwise. The body of the
  \<^verbatim>\<open>try\<close> is that choice, the decoding and the construction; the first handler takes
  the decoder's \<^verbatim>\<open>JSONDecodeError\<close>, the second every other exception, also those of
  the interpreter that interrupt the decoder.
\<close>

definition extract_json_text :: "pystr \<Rightarrow> pystr" where
  "extract_json_text response_text =
     (case re_search_fence response_text of
        Some group1 \<Rightarrow> group1
      | None \<Rightarrow> response_text)"

definition parse_ai_response :: "runtime \<Rightarrow> pystr \<Rightarrow> exn + TestSuite" where
  "parse_ai_response rt response_text =
     (let json_text = extract_json_text response_text
      in case (case json_loads (max_str_digits rt) (recursion_room rt) json_text of
                 Inl e \<Rightarrow> Inl e
               | Inr parsed_data \<Rightarrow> TestSuite_init (coerce_int rt) parsed_data) of
           Inl e \<Rightarrow>
             if e = JSONDecodeError
             then Inl (ValueError (S ''Failed to parse AI response as JSON: '') (StrOf e))
             else Inl (ValueError (S ''Failed to create TestSuite object: '') (StrOf e))
         | Inr test_suite \<Rightarrow> Inr test_suite)"

text \<open>
  \<^verbatim>\<open>generate_test_cases\<close>: validation, the prompts, the call of the client, the parsing
  of the reply and the overwriting of the count; every exception raised on the way is
  caught and raised again as an \<^verbatim>\<open>Exception\<close>.
\<close>

definition generate_test_cases ::
  "runtime \<Rightarrow> TestCaseGenerator \<Rightarrow> pystr \<Rightarrow> pystr list option \<Rightarrow> exn + TestSuite" where
  "generate_test_cases rt self us ac =
     (case (case validate_user_story us ac of
              Inl e \<Rightarrow> Inl e
            | Inr validated_input \<Rightarrow>
                (let system_prompt = create_system_prompt;
                     user_prompt = create_user_prompt self validated_input;
                     messages = [system_prompt, user_prompt]
                 in case llm self messages of
                      Inl e \<Rightarrow> Inl e
                    | Inr content \<Rightarrow>
                        (case parse_ai_response rt content of
                           Inl e \<Rightarrow> Inl e
                         | Inr test_suite \<Rightarrow>
                             Inr (test_suite
                                   \<lparr>total_scenarios :=
                                      int (length (test_scenarios test_suite))\<rparr>)))) of
        Inl e \<Rightarrow> Inl (Exception (S ''Failed to generate test cases: '') (StrOf e))
      | Inr test_suite \<Rightarrow> Inr test_suite)"

text \<open>
  \<^verbatim>\<open>format_output\<close>: the selector is compared with \<^verbatim>\<open>"json"\<close> and \<^verbatim>\<open>"markdown"\<close>, and
  every other selector gives the console rendering. Nothing is caught, so what the
  rendering raises is raised by \<^verbatim>\<open>format_output\<close>: the error of the record library for
  the selector \<^verbatim>\<open>json\<close>, and for the two formatters the error of the f-string that
  converts the count, when the count has more digits than the interpreter converts.
  \<open>format_markdown\<close> and \<open>format_console\<close> are the texts the formatters build otherwise,
  and \<open>formatted\<close> is the outcome of a formatter that builds the text \<open>t\<close>.
\<close>

definition formatted :: "runtime \<Rightarrow> TestSuite \<Rightarrow> pystr \<Rightarrow> exn + pystr" where
  "formatted rt test_suite t =
     (if within_digit_limit (max_str_digits rt) (int_digits (total_scenarios test_suite))
      then Inr t else Inl DigitLimitError)"

definition format_output :: "runtime \<Rightarrow> TestSuite \<Rightarrow> pystr \<Rightarrow> exn + pystr" where
  "format_output rt test_suite output_format =
     (if output_format = S ''json'' then model_dump_json 2 test_suite
      else if output_format = S ''markdown'' then formatted rt test_suite (format_markdown test_suite)
      else formatted rt test_suite (format_console test_suite))"

section \<open>Sample data and evaluation rules\<close>

text \<open>The definitions a concrete reply is evaluated with.\<close>

lemmas json_eval =
  json_loads_def skip_ws_def is_json_ws_def put_def match_number_def scan_minus_def
  within_digit_limit_def
  scan_int_def scan_frac_def scan_exp_def scan_sign_def is_digit_def dict_of_pairs_def
  hex_val_def unescape_def is_high_surrogate_def is_low_surrogate_def join_surrogates_def

lemmas fence_eval = fence_def fence_json_def is_space_def extract_json_text_def

lemmas suite_eval =
  TestSuite_init_def field_def validate_str_def validate_str_list_def validate_int_def
  validate_TestScenario_def validate_TestScenario_list_def

text \<open>
  An interpreter with its default limits, 900 calls below its recursion limit, and a
  record library that converts nothing to an integer.
\<close>

definition demo_runtime :: runtime where
  "demo_runtime = \<lparr>coerce_int = Map.empty, recursion_room = 900, max_str_digits = 4300\<rparr>"

text \<open>
  A reply as the test suite of the repository mocks it (one scenario) that declares seven
  scenarios, the suite it parses into, and a generator whose client is given: one that
  answers with a fixed text, one that fails.
\<close>

definition demo_reply :: pystr where
  \<open>demo_reply = S ''{"user_story": "Test story", "test_scenarios": [{"scenario_id": "TC001", "title": "Valid login test", "description": "Test successful login", "preconditions": ["User account exists"], "test_steps": ["Enter valid email", "Click login"], "expected_result": "User is logged in", "test_type": "positive", "priority": "high"}], "coverage_areas": ["Authentication"], "total_scenarios": 7}''\<close>

definition demo_parsed :: TestSuite where
  "demo_parsed =
     \<lparr>user_story = S ''Test story'',
      test_scenarios =
        [\<lparr>scenario_id = S ''TC001'', title = S ''Valid login test'',
          description = S ''Test successful login'',
          preconditions = [S ''User account exists''],
          test_steps = [S ''Enter valid email'', S ''Click login''],
          expected_result = S ''User is logged in'', test_type = S ''positive'',
          priority = S ''high''\<rparr>],
      coverage_areas = [S ''Authentication''],
      total_scenarios = 7\<rparr>"

definition demo_generator :: "(pystr list \<Rightarrow> exn + pystr) \<Rightarrow> TestCaseGenerator" where
  "demo_generator client =
     \<lparr>api_key = S ''test-key'', model_name = S ''gpt-3.5-turbo'', temperature = Float (S ''0.3''),
      max_tokens = 2000, llm = client, format_instructions = S ''Return a JSON object.''\<rparr>"

fun reply_with :: "pystr \<Rightarrow> pystr list \<Rightarrow> exn + pystr" where
  "reply_with content messages = Inr content"

fun fail_with :: "exn \<Rightarrow> pystr list \<Rightarrow> exn + pystr" where
  "fail_with e messages = Inl e"

lemmas builtin_eval =
  py_int_def py_float_def strip_c_def is_c_space_def to_ascii_def scan_sign_def is_digit_def
  float_syntax_def lower_def getenv_def

text \<open>A chat client factory whose clients answer with the sample reply, and an environment
  that holds the key only.\<close>

fun demo_client :: "pystr \<Rightarrow> pyfloat \<Rightarrow> int \<Rightarrow> pystr \<Rightarrow> pystr list \<Rightarrow> exn + pystr" where
  "demo_client name temp tokens key messages = Inr demo_reply"

definition demo_environ :: "pystr \<rightharpoonup> pystr" where
  "demo_environ = [S ''OPENAI_API_KEY'' \<mapsto> S ''test-key'']"

section \<open>Notions for the round trip through JSON\<close>

text \<open>
  \<open>delim r\<close>: \<open>r\<close> can follow a value in a rendering (nothing, a comma or a newline).
  \<open>dumpable limit room v\<close>: \<open>v\<close> is built from strings, integers within the digit limit,
  lists and objects with distinct keys, as the dump of a suite is, and it nests no deeper
  than \<open>room\<close>. \<open>tickfree v\<close>: no string of \<open>v\<close> holds a backtick. \<open>fenced_suite\<close> is a
  suite whose story is an empty fenced block, \<open>surrogate_suite\<close> one whose story is a
  lone surrogate and \<open>surrogate_reply\<close> a reply that parses into it (code point 92 is the
  backslash), \<open>huge_suite\<close> one whose count has 4301 digits.
\<close>

definition delim :: "pystr \<Rightarrow> bool" where
  "delim r = (case r of [] \<Rightarrow> True | c # _ \<Rightarrow> c = 44 \<or> c = 10)"

fun dumpable :: "nat \<Rightarrow> nat \<Rightarrow> json \<Rightarrow> bool"
  and dumpable_list :: "nat \<Rightarrow> nat \<Rightarrow> json list \<Rightarrow> bool"
  and dumpable_members :: "nat \<Rightarrow> nat \<Rightarrow> (pystr \<times> json) list \<Rightarrow> bool"
where
  "dumpable limit room (JString s) = True"
| "dumpable limit room (JInt i) = within_digit_limit limit (int_digits i)"
| "dumpable limit room (JArray xs) = (room \<noteq> 0 \<and> dumpable_list limit (room - 1) xs)"
| "dumpable limit room (JObject kvs) =
     (room \<noteq> 0 \<and> distinct (map fst kvs) \<and> dumpable_members limit (room - 1) kvs)"
| "dumpable limit room JNull = False"
| "dumpable limit room (JBool b) = False"
| "dumpable limit room (JFloat t) = False"
| "dumpable_list limit room [] = True"
| "dumpable_list limit room (x # xs) = (dumpable limit room x \<and> dumpable_list limit room xs)"
| "dumpable_members limit room [] = True"
| "dumpable_members limit room ((k, v) # kvs) =
     (dumpable limit room v \<and> dumpable_members limit room kvs)"

definition fenced_suite :: TestSuite where
  "fenced_suite =
     \<lparr>user_story = fence_json @ fence, test_scenarios = [], coverage_areas = [],
      total_scenarios = 0\<rparr>"

definition surrogate_suite :: TestSuite where
  "surrogate_suite =
     \<lparr>user_story = [55296], test_scenarios = [], coverage_areas = [], total_scenarios = 0\<rparr>"

definition surrogate_reply :: pystr where
  \<open>surrogate_reply =
     S ''{"user_story": "'' @ [92] @
     S ''ud800", "test_scenarios": [], "coverage_areas": [], "total_scenarios": 0}''\<close>

definition huge_count :: int where
  "huge_count = 10 ^ 4300"

definition huge_suite :: TestSuite where
  "huge_suite =
     \<lparr>user_story = S ''Test story'', test_scenarios = [], coverage_areas = [],
      total_scenarios = huge_count\<rparr>"

fun tickfree :: "json \<Rightarrow> bool"
  and tickfree_list :: "json list \<Rightarrow> bool"
  and tickfree_members :: "(pystr \<times> json) list \<Rightarrow> bool"
where
  "tickfree (JString s) = (96 \<notin> set s)"
| "tickfree (JFloat t) = (96 \<notin> set t)"
| "tickfree (JArray xs) = tickfree_list xs"
| "tickfree (JObject kvs) = tickfree_members kvs"
| "tickfree JNull = True"
| "tickfree (JBool b) = True"
| "tickfree (JInt i) = True"
| "tickfree_list [] = True"
| "tickfree_list (x # xs) = (tickfree x \<and> tickfree_list xs)"
| "tickfree_members [] = True"
| "tickfree_members ((k, v) # kvs) = (96 \<notin> set k \<and> tickfree v \<and> tickfree_members kvs)"

section \<open>Properties of input validation\<close>

text \<open>
  Claim C2, amended. A story of fewer than 10 characters is rejected: the construction
  of \<open>UserStoryInput\<close> raises the record library's validation error, which
  \<open>validate_user_story\<close> re-raises wrapped. A story that holds a lone surrogate is
  rejected in the same way, whatever its length. Every other story of at least 10
  characters is accepted whatever its content and whatever the criteria are, and the
  validated input holds the story and the criteria unchanged.
\<close>

theorem validate_user_story_length:
  "(length us < 10 \<or> has_surrogate us \<longrightarrow>
      UserStoryInput_init us ac = Inl ValidationError \<and>
      validate_user_story us ac =
        Inl (ValueError (S ''Invalid user story input: '') (StrOf ValidationError))) \<and>
   (10 \<le> length us \<and> \<not> has_surrogate us \<longrightarrow>
      UserStoryInput_init us ac =
        Inr \<lparr>story = us, acceptance_criteria = ac,
             story_type = Some (S ''feature'')\<rparr> \<and>
      validate_user_story us ac =
        Inr \<lparr>story = us, acceptance_criteria = ac,
             story_type = Some (S ''feature'')\<rparr>)"
  by (simp add: validate_user_story_def UserStoryInput_init_def)

theorem validate_user_story_length_witness:
  "length (S ''Short'') < 10 \<and>
   validate_user_story (S ''Short'') None =
     Inl (ValueError (S ''Invalid user story input: '') (StrOf ValidationError)) \<and>
   10 \<le> length (S ''As a user, I want to login to my account'') \<and>
   validate_user_story (S ''As a user, I want to login to my account'')
       (Some [S ''Valid credentials required'', [55296]]) =
     Inr \<lparr>story = S ''As a user, I want to login to my account'',
          acceptance_criteria = Some [S ''Valid credentials required'', [55296]],
          story_type = Some (S ''feature'')\<rparr>"
proof -
  have short: "length (S ''Short'') < 10"
    by (simp add: S_def)
  have long: "10 \<le> length (S ''As a user, I want to login to my account'')"
    "\<not> has_surrogate (S ''As a user, I want to login to my account'')"
    by (simp_all add: S_def has_surrogate_def is_surrogate_def)
  from short long
    validate_user_story_length [of "S ''Short''" None]
    validate_user_story_length [of "S ''As a user, I want to login to my account''"
      "Some [S ''Valid credentials required'', [55296]]"]
  show ?thesis by blast
qed

text \<open>The claim as stated fails: a story of ten characters that are lone surrogates is
  rejected, although it is not shorter than 10.\<close>

theorem surrogate_story_is_rejected:
  "length (replicate 10 (55296 :: codepoint)) = 10 \<and>
   validate_user_story (replicate 10 55296) None =
     Inl (ValueError (S ''Invalid user story input: '') (StrOf ValidationError))"
  by (simp add: validate_user_story_def UserStoryInput_init_def has_surrogate_def
      is_surrogate_def list_ex_iff)

text \<open>
  Claim C6. When a story is validated without acceptance criteria, the validated input
  has no criteria (\<open>None\<close>, not the empty list) and its story type is \<open>feature\<close>.
\<close>

theorem validate_user_story_defaults:
  "validate_user_story us None = Inr validated \<Longrightarrow>
     acceptance_criteria validated = None \<and>
     acceptance_criteria validated \<noteq> Some [] \<and>
     story_type validated = Some (S ''feature'')"
  by (auto simp: validate_user_story_def UserStoryInput_init_def split: if_splits)

theorem validate_user_story_defaults_witness:
  "validate_user_story (S ''As a user, I want to test the system functionality'') None =
     Inr \<lparr>story = S ''As a user, I want to test the system functionality'',
          acceptance_criteria = None, story_type = Some (S ''feature'')\<rparr> \<and>
   acceptance_criteria
     \<lparr>story = S ''As a user, I want to test the system functionality'',
      acceptance_criteria = None, story_type = Some (S ''feature'')\<rparr> = None"
proof -
  have ok: "validate_user_story (S ''As a user, I want to test the system functionality'') None =
     Inr \<lparr>story = S ''As a user, I want to test the system functionality'',
          acceptance_criteria = None, story_type = Some (S ''feature'')\<rparr>"
    by (simp add: validate_user_story_def UserStoryInput_init_def S_def has_surrogate_def
        is_surrogate_def)
  from validate_user_story_defaults [OF ok] ok show ?thesis by simp
qed


section \<open>Properties of the renderings\<close>

lemma find_after_decomp: "find_after n t = Some r \<Longrightarrow> \<exists>a. t = a @ n @ r"
proof (induction t)
  case Nil
  then show ?case by (simp split: if_splits)
next
  case (Cons c cs)
  show ?case
  proof (cases "prefix n (c # cs)")
    case True
    then obtain zs where "c # cs = n @ zs" by (auto simp: prefix_def)
    moreover from Cons.prems True have "r = drop (length n) (c # cs)" by simp
    ultimately have "c # cs = [] @ n @ r" by simp
    then show ?thesis by blast
  next
    case False
    with Cons.prems have "find_after n cs = Some r" by simp
    from Cons.IH[OF this] obtain a where "cs = a @ n @ r" ..
    then show ?thesis by (intro exI[of _ "c # a"]) simp
  qed
qed

lemma find_after_here: "find_after n (n @ b) = Some b"
proof (cases "n @ b")
  case Nil
  then show ?thesis by simp
next
  case (Cons c cs)
  have "prefix n (c # cs)" unfolding Cons [symmetric] by simp
  then have "find_after n (c # cs) = Some (drop (length n) (c # cs))" by simp
  also have "drop (length n) (c # cs) = b" unfolding Cons [symmetric] by simp
  finally show ?thesis unfolding Cons [symmetric] .
qed

lemma find_after_suffix:
  "find_after n b = Some r \<Longrightarrow> suffix b t \<Longrightarrow> \<exists>r'. find_after n t = Some r' \<and> suffix r r'"
proof (induction t)
  case Nil
  then show ?case by auto
next
  case (Cons c cs)
  show ?case
  proof (cases "b = c # cs")
    case True
    with Cons.prems show ?thesis by auto
  next
    case False
    with Cons.prems have sb: "suffix b cs" by (auto simp: suffix_Cons)
    show ?thesis
    proof (cases "prefix n (c # cs)")
      case True
      then obtain zs where zs: "c # cs = n @ zs" by (auto simp: prefix_def)
      from find_after_decomp[OF Cons.prems(1)] obtain a where a: "b = a @ n @ r" ..
      have "suffix r (c # cs)" using Cons.prems(2) a by (auto simp: suffix_def)
      moreover have "suffix zs (c # cs)" using zs by (auto simp: suffix_def)
      moreover have "length r \<le> length zs"
      proof -
        have "length b \<le> length cs" using sb by (rule suffix_length_le)
        moreover have "length (c # cs) = length (n @ zs)" using zs by simp
        moreover have "length b = length (a @ n @ r)" using a by simp
        ultimately show ?thesis by simp
      qed
      ultimately have "suffix r zs" by (rule suffix_length_suffix)
      moreover have "find_after n (c # cs) = Some zs" unfolding zs by (rule find_after_here)
      ultimately show ?thesis by blast
    next
      case False
      from Cons.IH[OF Cons.prems(1) sb] False show ?thesis by simp
    qed
  qed
qed

lemma occurs_in_order_suffix:
  "occurs_in_order ns b \<Longrightarrow> suffix b t \<Longrightarrow> occurs_in_order ns t"
proof (induction ns arbitrary: b t)
  case Nil
  then show ?case by simp
next
  case (Cons n ns)
  from Cons.prems(1) obtain r where r: "find_after n b = Some r" "occurs_in_order ns r"
    by (auto split: option.splits)
  from find_after_suffix[OF r(1) Cons.prems(2)] obtain r' where
    r': "find_after n t = Some r'" "suffix r r'" by blast
  from Cons.IH[OF r(2) r'(2)] r'(1) show ?case by simp
qed

lemma occurs_in_orderI:
  "t = a @ n @ b \<Longrightarrow> occurs_in_order ns b \<Longrightarrow> occurs_in_order (n # ns) t"
proof -
  assume t: "t = a @ n @ b" and b: "occurs_in_order ns b"
  have "occurs_in_order (n # ns) (n @ b)" using b by (simp add: find_after_here)
  moreover have "suffix (n @ b) t" using t by (simp add: suffix_def)
  ultimately show ?thesis by (rule occurs_in_order_suffix)
qed


lemma foldl_append_one: "foldl (\<lambda>out x. out @ [f x]) out xs = out @ map f xs"
  by (induction xs arbitrary: out) simp_all

lemma foldl_append_pair:
  "foldl (\<lambda>out (a, b). out @ [h a b]) out xs = out @ map (\<lambda>(a, b). h a b) xs"
  by (induction xs arbitrary: out) (simp_all add: case_prod_beta)

lemma foldl_append_block:
  "(\<And>out x. step out x = out @ block x) \<Longrightarrow>
     foldl step out xs = out @ concat (map block xs)"
  by (induction xs arbitrary: out) simp_all

lemma console_scenario_block:
  "console_scenario out (i, sc) =
     out @ ([10 # S ''TEST SCENARIO '' @ str_nat i @ S '': '' @ scenario_id sc,
             replicate 40 45] @
            fields_in_order (\<lambda>l. S l @ S '': '') (\<lambda>l. S l @ S '':'')
              (S ''  '' @ [8226] @ S '' '') (S ''  '') sc @
            [replicate 40 45])"
  by (simp add: console_scenario_def fields_in_order_def Let_def foldl_append_one
      foldl_append_pair S_def)

lemma markdown_scenario_block:
  "markdown_scenario out (i, sc) =
     out @ ([10 # S ''## Test Scenario '' @ str_nat i @ S '': '' @ scenario_id sc] @
            fields_in_order (\<lambda>l. S ''**'' @ S l @ S '':** '') (\<lambda>l. S ''**'' @ S l @ S '':**'')
              (S ''- '') [] sc)"
  by (simp add: markdown_scenario_def fields_in_order_def Let_def foldl_append_one
      foldl_append_pair S_def)


lemma str_join_Cons: "str_join sep (x # xs) = x @ concat (map ((@) sep) xs)"
  by (induction sep xs arbitrary: x rule: str_join.induct) simp_all

lemma occurs_in_order_blocks:
  assumes "\<And>x. \<exists>a tl. block x = (a @ key x) # tl"
  shows "occurs_in_order (map key xs) (concat (map ((@) sep) (concat (map block xs))))"
proof (induction xs)
  case Nil
  show ?case by simp
next
  case (Cons x xs)
  let ?g = "\<lambda>ls. concat (map ((@) sep) ls)"
  from assms obtain a tl where blk: "block x = (a @ key x) # tl" by blast
  have "occurs_in_order (map key xs) (?g tl @ ?g (concat (map block xs)))"
    using Cons.IH by (rule occurs_in_order_suffix) (simp add: suffix_def)
  moreover have "?g (concat (map block (x # xs))) =
      (sep @ a) @ key x @ (?g tl @ ?g (concat (map block xs)))"
    by (simp add: blk)
  ultimately show ?case
    using occurs_in_orderI by (metis list.simps(9))
qed

lemma format_console_lines:
  "format_console ts =
     str_join [10]
       ([replicate 80 61,
         S ''TEST CASE GENERATOR RESULTS'',
         replicate 80 61,
         10 # S ''User Story: '' @ user_story ts,
         S ''Total Test Scenarios: '' @ str_int (total_scenarios ts),
         S ''Coverage Areas: '' @ str_join (S '', '') (coverage_areas ts),
         10 # replicate 80 61] @
        concat (map (\<lambda>(i, sc).
            [10 # S ''TEST SCENARIO '' @ str_nat i @ S '': '' @ scenario_id sc,
             replicate 40 45] @
            fields_in_order (\<lambda>l. S l @ S '': '') (\<lambda>l. S l @ S '':'')
              (S ''  '' @ [8226] @ S '' '') (S ''  '') sc @
            [replicate 40 45])
          (enumerate 1 (test_scenarios ts))))"
proof -
  have "foldl console_scenario out xs =
      out @ concat (map (\<lambda>(i, sc).
            [10 # S ''TEST SCENARIO '' @ str_nat i @ S '': '' @ scenario_id sc,
             replicate 40 45] @
            fields_in_order (\<lambda>l. S l @ S '': '') (\<lambda>l. S l @ S '':'')
              (S ''  '' @ [8226] @ S '' '') (S ''  '') sc @
            [replicate 40 45]) xs)" for out xs
    by (rule foldl_append_block) (simp add: console_scenario_block split: prod.split)
  then show ?thesis
    by (simp add: format_console_def Let_def)
qed

lemma format_markdown_lines:
  "format_markdown ts =
     str_join [10]
       ([S ''# Test Case Generator Results'',
         10 # S ''**User Story:** '' @ user_story ts,
         S ''**Total Test Scenarios:** '' @ str_int (total_scenarios ts),
         S ''**Coverage Areas:** '' @ str_join (S '', '') (coverage_areas ts)] @
        concat (map (\<lambda>(i, sc).
            [10 # S ''## Test Scenario '' @ str_nat i @ S '': '' @ scenario_id sc] @
            fields_in_order (\<lambda>l. S ''**'' @ S l @ S '':** '') (\<lambda>l. S ''**'' @ S l @ S '':**'')
              (S ''- '') [] sc)
          (enumerate 1 (test_scenarios ts))))"
proof -
  have "foldl markdown_scenario out xs =
      out @ concat (map (\<lambda>(i, sc).
            [10 # S ''## Test Scenario '' @ str_nat i @ S '': '' @ scenario_id sc] @
            fields_in_order (\<lambda>l. S ''**'' @ S l @ S '':** '') (\<lambda>l. S ''**'' @ S l @ S '':**'')
              (S ''- '') [] sc) xs)" for out xs
    by (rule foldl_append_block) (simp add: markdown_scenario_block split: prod.split)
  then show ?thesis
    by (simp add: format_markdown_def Let_def)
qed

lemma map_snd_enumerate: "map snd (enumerate k xs) = xs"
  by (simp add: enumerate_eq_zip)

lemma format_console_in_order:
  "occurs_in_order (S ''TEST CASE GENERATOR RESULTS'' # map scenario_id (test_scenarios ts))
     (format_console ts)"
proof -
  let ?block = "\<lambda>(i, sc).
            [10 # S ''TEST SCENARIO '' @ str_nat i @ S '': '' @ scenario_id sc,
             replicate 40 45] @
            fields_in_order (\<lambda>l. S l @ S '': '') (\<lambda>l. S l @ S '':'')
              (S ''  '' @ [8226] @ S '' '') (S ''  '') sc @
            [replicate 40 45]"
  let ?g = "\<lambda>ls. concat (map ((@) [10]) ls)"
  let ?blocks = "concat (map ?block (enumerate 1 (test_scenarios ts)))"
  have "\<exists>a tl. ?block x = (a @ (scenario_id \<circ> snd) x) # tl" for x
  proof (cases x)
    case (Pair i sc)
    then have "?block x =
        ((10 # S ''TEST SCENARIO '' @ str_nat i @ S '': '') @ (scenario_id \<circ> snd) x) #
        (replicate 40 45 #
         fields_in_order (\<lambda>l. S l @ S '': '') (\<lambda>l. S l @ S '':'')
           (S ''  '' @ [8226] @ S '' '') (S ''  '') sc @ [replicate 40 45])"
      by simp
    then show ?thesis by blast
  qed
  then have "occurs_in_order (map (scenario_id \<circ> snd) (enumerate 1 (test_scenarios ts)))
      (?g ?blocks)"
    by (rule occurs_in_order_blocks)
  then have ids: "occurs_in_order (map scenario_id (test_scenarios ts)) (?g ?blocks)"
    by (simp add: map_snd_enumerate flip: map_map)
  let ?rest = "[replicate 80 61,
         10 # S ''User Story: '' @ user_story ts,
         S ''Total Test Scenarios: '' @ str_int (total_scenarios ts),
         S ''Coverage Areas: '' @ str_join (S '', '') (coverage_areas ts),
         10 # replicate 80 61]"
  have "occurs_in_order (map scenario_id (test_scenarios ts)) (?g ?rest @ ?g ?blocks)"
    using ids by (rule occurs_in_order_suffix) (simp add: suffix_def)
  moreover have "format_console ts =
      (replicate 80 61 @ [10]) @ S ''TEST CASE GENERATOR RESULTS'' @ (?g ?rest @ ?g ?blocks)"
    unfolding format_console_lines by (simp add: str_join_Cons)
  ultimately show ?thesis by (rule occurs_in_orderI [rotated])
qed

text \<open>
  Claim C9. The console and the Markdown rendering of every suite list, for each
  scenario in turn, its fields in the fixed order title, type, priority, description,
  preconditions (one bulleted line each), steps (numbered from 1) and expected result:
  each rendering is the newline-joined list of its header lines followed by one such
  block per scenario. In the console rendering the text TEST CASE GENERATOR RESULTS is
  followed by the scenario identifiers in the order of the suite, so by TC001 to TC006
  for a suite whose scenarios carry these identifiers.
\<close>

theorem rendering_field_order:
  "format_console ts =
     str_join [10]
       ([replicate 80 61,
         S ''TEST CASE GENERATOR RESULTS'',
         replicate 80 61,
         10 # S ''User Story: '' @ user_story ts,
         S ''Total Test Scenarios: '' @ str_int (total_scenarios ts),
         S ''Coverage Areas: '' @ str_join (S '', '') (coverage_areas ts),
         10 # replicate 80 61] @
        concat (map (\<lambda>(i, sc).
            [10 # S ''TEST SCENARIO '' @ str_nat i @ S '': '' @ scenario_id sc,
             replicate 40 45] @
            fields_in_order (\<lambda>l. S l @ S '': '') (\<lambda>l. S l @ S '':'')
              (S ''  '' @ [8226] @ S '' '') (S ''  '') sc @
            [replicate 40 45])
          (enumerate 1 (test_scenarios ts)))) \<and>
   format_markdown ts =
     str_join [10]
       ([S ''# Test Case Generator Results'',
         10 # S ''**User Story:** '' @ user_story ts,
         S ''**Total Test Scenarios:** '' @ str_int (total_scenarios ts),
         S ''**Coverage Areas:** '' @ str_join (S '', '') (coverage_areas ts)] @
        concat (map (\<lambda>(i, sc).
            [10 # S ''## Test Scenario '' @ str_nat i @ S '': '' @ scenario_id sc] @
            fields_in_order (\<lambda>l. S ''**'' @ S l @ S '':** '') (\<lambda>l. S ''**'' @ S l @ S '':**'')
              (S ''- '') [] sc)
          (enumerate 1 (test_scenarios ts)))) \<and>
   occurs_in_order (S ''TEST CASE GENERATOR RESULTS'' # map scenario_id (test_scenarios ts))
     (format_console ts)"
  using format_console_lines format_markdown_lines format_console_in_order by blast

theorem rendering_field_order_witness:
  "occurs_in_order
     [S ''TEST CASE GENERATOR RESULTS'', S ''TC001'', S ''TC002'', S ''TC003'', S ''TC004'',
      S ''TC005'', S ''TC006'']
     (format_console demo_suite)"
proof -
  have ids: "map scenario_id (test_scenarios demo_suite) =
      [S ''TC001'', S ''TC002'', S ''TC003'', S ''TC004'', S ''TC005'', S ''TC006'']"
    by (simp add: demo_suite_def demo_scenario_def)
  from rendering_field_order [of demo_suite] show ?thesis
    unfolding ids by blast
qed

section \<open>Properties of the search for the fenced block\<close>

lemma is_space_backtick: "is_space c \<Longrightarrow> c \<noteq> 96"
  by (auto simp: is_space_def)

lemma prefix_fence_Cons: "c \<noteq> 96 \<Longrightarrow> \<not> prefix fence (c # cs)"
  by (simp add: fence_def)

lemma prefix_fence_json_Cons: "c \<noteq> 96 \<Longrightarrow> \<not> prefix fence_json (c # cs)"
  by (simp add: fence_json_def fence_def)

lemma re_search_fence_none: "96 \<notin> set s \<Longrightarrow> re_search_fence s = None"
proof (induction s)
  case Nil
  show ?case by simp
next
  case (Cons c cs)
  then have "\<not> prefix fence_json (c # cs)" by (intro prefix_fence_json_Cons) auto
  with Cons show ?case by simp
qed

section \<open>Properties of the response parser and of the generator\<close>

lemma demo_reply_no_fence: "re_search_fence demo_reply = None"
  by (simp add: demo_reply_def S_def fence_eval)

lemma demo_reply_loads:
  "\<exists>d. json_loads 4300 900 demo_reply = Inr d \<and> TestSuite_init Map.empty d = Inr demo_parsed"
  by (simp add: demo_reply_def demo_parsed_def S_def json_eval suite_eval)

lemma demo_reply_parsed: "parse_ai_response demo_runtime demo_reply = Inr demo_parsed"
  using demo_reply_loads
  by (auto simp add: parse_ai_response_def extract_json_text_def demo_reply_no_fence
      demo_runtime_def)




lemma TestSuite_init_error: "TestSuite_init lax d = Inl e \<Longrightarrow> e = ValidationError \<or> e = TypeError"
  by (auto simp: TestSuite_init_def split: json.splits option.splits prod.splits)

lemma parse_ai_response_cases:
  "parse_ai_response rt r =
     (case json_loads (max_str_digits rt) (recursion_room rt) (extract_json_text r) of
        Inl e \<Rightarrow>
          if e = JSONDecodeError
          then Inl (ValueError (S ''Failed to parse AI response as JSON: '') (StrOf JSONDecodeError))
          else Inl (ValueError (S ''Failed to create TestSuite object: '') (StrOf e))
      | Inr d \<Rightarrow>
          (case TestSuite_init (coerce_int rt) d of
             Inl e \<Rightarrow> Inl (ValueError (S ''Failed to create TestSuite object: '') (StrOf e))
           | Inr ts \<Rightarrow> Inr ts))"
  by (auto simp: parse_ai_response_def Let_def split: sum.splits dest: TestSuite_init_error)






text \<open>
  Claim C1. Every suite \<open>generate_test_cases\<close> returns has a count equal to the length
  of its scenario list: when the reply parses into a suite, the result is that suite
  with the count overwritten by the number of its scenarios, whatever count the reply
  declared.
\<close>

theorem generate_test_cases_count:
  "(generate_test_cases rt self us ac = Inr ts \<longrightarrow>
      total_scenarios ts = int (length (test_scenarios ts))) \<and>
   (validate_user_story us ac = Inr validated \<and>
    llm self [create_system_prompt, create_user_prompt self validated] = Inr reply \<and>
    parse_ai_response rt reply = Inr parsed \<longrightarrow>
      generate_test_cases rt self us ac =
        Inr (parsed\<lparr>total_scenarios := int (length (test_scenarios parsed))\<rparr>))"
  by (auto simp: generate_test_cases_def Let_def split: sum.splits)

theorem generate_test_cases_count_witness:
  "generate_test_cases demo_runtime (demo_generator (reply_with demo_reply))
       (S ''As a user, I want to login to my account'') (Some [S ''Valid credentials required'']) =
     Inr (demo_parsed\<lparr>total_scenarios := 1\<rparr>) \<and>
   total_scenarios demo_parsed = 7 \<and> length (test_scenarios demo_parsed) = 1"
proof -
  let ?us = "S ''As a user, I want to login to my account''"
  let ?ac = "Some [S ''Valid credentials required'']"
  let ?v = "\<lparr>story = ?us, acceptance_criteria = ?ac, story_type = Some (S ''feature'')\<rparr>"
  let ?self = "demo_generator (reply_with demo_reply)"
  have v: "validate_user_story ?us ?ac = Inr ?v"
    by (simp add: validate_user_story_def UserStoryInput_init_def S_def has_surrogate_def
        is_surrogate_def)
  have r: "llm ?self [create_system_prompt, create_user_prompt ?self ?v] = Inr demo_reply"
    by (simp add: demo_generator_def)
  have n: "length (test_scenarios demo_parsed) = 1" "total_scenarios demo_parsed = 7"
    by (simp_all add: demo_parsed_def)
  from generate_test_cases_count [of demo_runtime ?self ?us ?ac _ ?v demo_reply demo_parsed]
    v r demo_reply_parsed n
  show ?thesis by simp
qed

text \<open>
  Claim C10. Every failure inside \<open>generate_test_cases\<close> (of the validation, of the
  client, of the parsing, of the construction) is raised again as an \<open>Exception\<close> whose
  message is \<^verbatim>\<open>Failed to generate test cases: \<close> followed by the message of the cause.
  It is never a \<open>ValueError\<close>, so the kinds of failure have one exception type.
\<close>

theorem generate_test_cases_wraps_errors:
  "(generate_test_cases rt self us ac = Inl e \<longrightarrow>
      (\<exists>cause. e = Exception (S ''Failed to generate test cases: '') (StrOf cause)) \<and>
      \<not> is_ValueError e) \<and>
   (validate_user_story us ac = Inl cause \<longrightarrow>
      generate_test_cases rt self us ac =
        Inl (Exception (S ''Failed to generate test cases: '') (StrOf cause))) \<and>
   (validate_user_story us ac = Inr validated \<and>
    llm self [create_system_prompt, create_user_prompt self validated] = Inl cause \<longrightarrow>
      generate_test_cases rt self us ac =
        Inl (Exception (S ''Failed to generate test cases: '') (StrOf cause))) \<and>
   (validate_user_story us ac = Inr validated \<and>
    llm self [create_system_prompt, create_user_prompt self validated] = Inr reply \<and>
    parse_ai_response rt reply = Inl cause \<longrightarrow>
      generate_test_cases rt self us ac =
        Inl (Exception (S ''Failed to generate test cases: '') (StrOf cause)))"
  by (auto simp: generate_test_cases_def Let_def split: sum.splits)

theorem generate_test_cases_wraps_errors_witness:
  "generate_test_cases demo_runtime (demo_generator (reply_with demo_reply)) (S ''Short'') None =
     Inl (Exception (S ''Failed to generate test cases: '')
            (StrOf (ValueError (S ''Invalid user story input: '') (StrOf ValidationError)))) \<and>
   generate_test_cases demo_runtime (demo_generator (fail_with (ServiceError (S ''Connection error.''))))
       (S ''As a user, I want to login to my account'') None =
     Inl (Exception (S ''Failed to generate test cases: '')
            (StrOf (ServiceError (S ''Connection error.'')))) \<and>
   \<not> is_ValueError (Exception (S ''Failed to generate test cases: '')
            (StrOf (ValueError (S ''Invalid user story input: '') (StrOf ValidationError))))"
proof -
  let ?us = "S ''As a user, I want to login to my account''"
  let ?v = "\<lparr>story = ?us, acceptance_criteria = None, story_type = Some (S ''feature'')\<rparr>"
  let ?self = "demo_generator (fail_with (ServiceError (S ''Connection error.'')))"
  have short: "validate_user_story (S ''Short'') None =
      Inl (ValueError (S ''Invalid user story input: '') (StrOf ValidationError))"
    by (simp add: validate_user_story_def UserStoryInput_init_def S_def has_surrogate_def
        is_surrogate_def)
  have v: "validate_user_story ?us None = Inr ?v"
    by (simp add: validate_user_story_def UserStoryInput_init_def S_def has_surrogate_def
        is_surrogate_def)
  have r: "llm ?self [create_system_prompt, create_user_prompt ?self ?v] =
      Inl (ServiceError (S ''Connection error.''))"
    by (simp add: demo_generator_def)
  from generate_test_cases_wraps_errors [of demo_runtime "demo_generator (reply_with demo_reply)"
      "S ''Short''" None _ "ValueError (S ''Invalid user story input: '') (StrOf ValidationError)"]
    generate_test_cases_wraps_errors [of demo_runtime ?self ?us None _
      "ServiceError (S ''Connection error.'')" ?v]
    short v r
  show ?thesis by simp
qed

text \<open>The number of digits of a power of ten.\<close>

lemma str_nat_length: "n \<noteq> 0 \<Longrightarrow> length (str_nat (n * 10)) = Suc (length (str_nat n))"
  by (subst str_nat.simps) simp

lemma str_nat_power: "length (str_nat (10 ^ k)) = Suc k"
proof (induction k)
  case 0
  show ?case by (simp add: str_nat.simps)
next
  case (Suc k)
  have "length (str_nat (10 ^ k * 10)) = Suc (length (str_nat (10 ^ k)))"
    by (rule str_nat_length) simp
  with Suc show ?case by (simp add: mult.commute)
qed

lemma int_digits_power: "int_digits (10 ^ k) = Suc k"
proof -
  have "nat \<bar>10 ^ k :: int\<bar> = 10 ^ k" by (simp add: nat_power_eq)
  then show ?thesis unfolding int_digits_def by (simp only: str_nat_power)
qed

text \<open>
  Claim C7, amended. For every suite and every selector other than \<^verbatim>\<open>json\<close> and
  \<^verbatim>\<open>markdown\<close>, \<open>format_output\<close> does what it does for \<^verbatim>\<open>console\<close>: it returns the
  console rendering whenever the count can be converted to text, which is so for every
  count of at most 640 digits. Formatting can fail. With the selector \<^verbatim>\<open>json\<close> it
  raises the error of the record library when a string of the suite holds a lone
  surrogate, and returns the JSON rendering otherwise; with every other selector it
  raises only when the count has more digits than the interpreter converts.
\<close>

theorem format_output_fallback:
  "(output_format \<noteq> S ''json'' \<and> output_format \<noteq> S ''markdown'' \<longrightarrow>
      format_output rt ts output_format = format_output rt ts (S ''console'') \<and>
      (within_digit_limit (max_str_digits rt) (int_digits (total_scenarios ts)) \<longrightarrow>
         format_output rt ts output_format = Inr (format_console ts))) \<and>
   (within_digit_limit (max_str_digits rt) (int_digits (total_scenarios ts)) \<longrightarrow>
      format_output rt ts (S ''markdown'') = Inr (format_markdown ts)) \<and>
   (int_digits (total_scenarios ts) \<le> 640 \<longrightarrow>
      within_digit_limit (max_str_digits rt) (int_digits (total_scenarios ts))) \<and>
   (output_format \<noteq> S ''json'' \<and>
    \<not> within_digit_limit (max_str_digits rt) (int_digits (total_scenarios ts)) \<longrightarrow>
      format_output rt ts output_format = Inl DigitLimitError) \<and>
   (list_ex has_surrogate (suite_strings ts) \<longrightarrow>
      format_output rt ts (S ''json'') = Inl PydanticSerializationError) \<and>
   (\<not> list_ex has_surrogate (suite_strings ts) \<longrightarrow>
      format_output rt ts (S ''json'') = Inr (json_pretty 2 0 (model_dump ts)))"
proof -
  have ne: "S ''console'' \<noteq> S ''json''" "S ''console'' \<noteq> S ''markdown''"
    "S ''markdown'' \<noteq> S ''json''"
    by (simp_all add: S_def)
  show ?thesis
    by (simp add: format_output_def formatted_def model_dump_json_def ne
        within_digit_limit_def)
qed

theorem format_output_fallback_witness:
  "format_output demo_runtime demo_suite (S ''console'') = Inr (format_console demo_suite) \<and>
   format_output demo_runtime demo_suite (S ''yaml'') = Inr (format_console demo_suite) \<and>
   format_output demo_runtime demo_suite (S ''markdown'') = Inr (format_markdown demo_suite) \<and>
   format_output demo_runtime demo_suite (S ''json'') =
     Inr (json_pretty 2 0 (model_dump demo_suite)) \<and>
   format_output demo_runtime surrogate_suite (S ''json'') = Inl PydanticSerializationError \<and>
   format_output demo_runtime huge_suite (S ''yaml'') = Inl DigitLimitError"
proof -
  have ne: "S ''console'' \<noteq> S ''json''" "S ''console'' \<noteq> S ''markdown''"
    "S ''yaml'' \<noteq> S ''json''" "S ''yaml'' \<noteq> S ''markdown''"
    by (simp_all add: S_def)
  have six: "int_digits (total_scenarios demo_suite) \<le> 640"
    by (simp add: demo_suite_def int_digits_def str_nat.simps)
  have clean: "\<not> list_ex has_surrogate (suite_strings demo_suite)"
    by (simp add: demo_suite_def demo_scenario_def suite_strings_def scenario_strings_def
        has_surrogate_def is_surrogate_def S_def)
  have lone: "list_ex has_surrogate (suite_strings surrogate_suite)"
    by (simp add: surrogate_suite_def suite_strings_def has_surrogate_def is_surrogate_def)
  have "int_digits (total_scenarios huge_suite) = Suc 4300"
    unfolding huge_suite_def huge_count_def
    by (simp only: TestSuite.select_convs int_digits_power)
  moreover have "max_str_digits demo_runtime = 4300"
    by (simp add: demo_runtime_def)
  ultimately have huge: "\<not> within_digit_limit (max_str_digits demo_runtime)
      (int_digits (total_scenarios huge_suite))"
    by (simp add: within_digit_limit_def)
  note demo = format_output_fallback [of _ demo_runtime demo_suite]
  from six demo [of "S ''console''"]
  have within: "within_digit_limit (max_str_digits demo_runtime)
      (int_digits (total_scenarios demo_suite))"
    by blast
  from ne within demo [of "S ''console''"]
  have 1: "format_output demo_runtime demo_suite (S ''console'') =
      Inr (format_console demo_suite)"
    by blast
  from ne within demo [of "S ''yaml''"]
  have 2: "format_output demo_runtime demo_suite (S ''yaml'') = Inr (format_console demo_suite)"
    by blast
  from within demo [of "S ''yaml''"]
  have 3: "format_output demo_runtime demo_suite (S ''markdown'') =
      Inr (format_markdown demo_suite)"
    by blast
  from clean demo [of "S ''yaml''"]
  have 4: "format_output demo_runtime demo_suite (S ''json'') =
      Inr (json_pretty 2 0 (model_dump demo_suite))"
    by blast
  from lone format_output_fallback [of "S ''yaml''" demo_runtime surrogate_suite]
  have 5: "format_output demo_runtime surrogate_suite (S ''json'') =
      Inl PydanticSerializationError"
    by blast
  from ne huge format_output_fallback [of "S ''yaml''" demo_runtime huge_suite]
  have 6: "format_output demo_runtime huge_suite (S ''yaml'') = Inl DigitLimitError"
    by blast
  from 1 2 3 4 5 6 show ?thesis by simp
qed

text \<open>The claim as stated fails: formatting can fail. A reply whose story is the escape of
  a lone surrogate parses into a suite, and the selector \<^verbatim>\<open>json\<close> raises on that suite.\<close>

theorem format_output_json_can_fail:
  "parse_ai_response demo_runtime surrogate_reply = Inr surrogate_suite \<and>
   format_output demo_runtime surrogate_suite (S ''json'') = Inl PydanticSerializationError"
proof -
  have "re_search_fence surrogate_reply = None"
    by (simp add: surrogate_reply_def S_def fence_eval)
  moreover have "json_loads 4300 900 surrogate_reply =
      Inr (JObject [(S ''user_story'', JString [55296]), (S ''test_scenarios'', JArray []),
        (S ''coverage_areas'', JArray []), (S ''total_scenarios'', JInt 0)])"
    by (simp add: surrogate_reply_def S_def json_eval)
  moreover have "TestSuite_init Map.empty
      (JObject [(S ''user_story'', JString [55296]), (S ''test_scenarios'', JArray []),
        (S ''coverage_areas'', JArray []), (S ''total_scenarios'', JInt 0)]) =
      Inr surrogate_suite"
    by (simp add: surrogate_suite_def S_def suite_eval)
  ultimately have "parse_ai_response demo_runtime surrogate_reply = Inr surrogate_suite"
    by (simp add: parse_ai_response_cases extract_json_text_def demo_runtime_def)
  moreover have "format_output demo_runtime surrogate_suite (S ''json'') =
      Inl PydanticSerializationError"
    by (simp add: format_output_def model_dump_json_def surrogate_suite_def suite_strings_def
        has_surrogate_def is_surrogate_def)
  ultimately show ?thesis by (rule conjI)
qed

section \<open>Properties of the initialization\<close>

text \<open>
  Claim C8, amended. If the API key is missing from the environment or empty, the
  initialization raises \<open>ValueError\<close> without building the client. If the key is there,
  the initialization succeeds exactly when \<^verbatim>\<open>TEMPERATURE\<close> (default \<^verbatim>\<open>0.3\<close>) converts
  with \<^verbatim>\<open>float()\<close> and \<^verbatim>\<open>MAX_TOKENS\<close> (default \<^verbatim>\<open>2000\<close>) converts with \<^verbatim>\<open>int()\<close>;
  the generator then holds the key, the model name (default \<^verbatim>\<open>gpt-3.5-turbo\<close>), that
  temperature and that limit. Otherwise it raises the \<open>ValueError\<close> of the conversion
  that failed.
\<close>

theorem init_needs_key_and_settings:
  "(environ (S ''OPENAI_API_KEY'') = None \<or> environ (S ''OPENAI_API_KEY'') = Some [] \<longrightarrow>
      TestCaseGenerator_init client instructions environ =
        Inl (ValueError (S ''OPENAI_API_KEY not found in environment variables'') NoDetail)) \<and>
   (environ (S ''OPENAI_API_KEY'') = Some key \<and> key \<noteq> [] \<and>
    py_float (getenv environ ''TEMPERATURE'' ''0.3'') = Inr temp \<and>
    py_int (getenv environ ''MAX_TOKENS'' ''2000'') = Inr tokens \<longrightarrow>
      TestCaseGenerator_init client instructions environ =
        Inr \<lparr>api_key = key,
             model_name = getenv environ ''MODEL_NAME'' ''gpt-3.5-turbo'',
             temperature = temp, max_tokens = tokens,
             llm = client (getenv environ ''MODEL_NAME'' ''gpt-3.5-turbo'') temp tokens key,
             format_instructions = instructions\<rparr>) \<and>
   (environ (S ''OPENAI_API_KEY'') = Some key \<and> key \<noteq> [] \<and>
    py_float (getenv environ ''TEMPERATURE'' ''0.3'') = Inl e \<longrightarrow>
      TestCaseGenerator_init client instructions environ = Inl e) \<and>
   (environ (S ''OPENAI_API_KEY'') = Some key \<and> key \<noteq> [] \<and>
    py_float (getenv environ ''TEMPERATURE'' ''0.3'') = Inr temp \<and>
    py_int (getenv environ ''MAX_TOKENS'' ''2000'') = Inl e \<longrightarrow>
      TestCaseGenerator_init client instructions environ = Inl e)"
  by (auto simp: TestCaseGenerator_init_def Let_def)

theorem init_needs_key_and_settings_witness:
  "TestCaseGenerator_init demo_client (S ''Return a JSON object.'') Map.empty =
     Inl (ValueError (S ''OPENAI_API_KEY not found in environment variables'') NoDetail) \<and>
   TestCaseGenerator_init demo_client (S ''Return a JSON object.'') demo_environ =
     Inr \<lparr>api_key = S ''test-key'', model_name = S ''gpt-3.5-turbo'',
          temperature = Float (S ''0.3''), max_tokens = 2000,
          llm = demo_client (S ''gpt-3.5-turbo'') (Float (S ''0.3'')) 2000 (S ''test-key''),
          format_instructions = S ''Return a JSON object.''\<rparr>"
proof -
  have key: "demo_environ (S ''OPENAI_API_KEY'') = Some (S ''test-key'')" "S ''test-key'' \<noteq> []"
    by (simp_all add: demo_environ_def S_def)
  have model: "getenv demo_environ ''MODEL_NAME'' ''gpt-3.5-turbo'' = S ''gpt-3.5-turbo''"
    by (simp add: demo_environ_def getenv_def S_def)
  have temp: "py_float (getenv demo_environ ''TEMPERATURE'' ''0.3'') = Inr (Float (S ''0.3''))"
    by (simp add: demo_environ_def S_def builtin_eval)
  have tokens: "py_int (getenv demo_environ ''MAX_TOKENS'' ''2000'') = Inr 2000"
    by (simp add: demo_environ_def S_def builtin_eval)
  from init_needs_key_and_settings [where environ = Map.empty and client = demo_client
      and instructions = "S ''Return a JSON object.''"]
    init_needs_key_and_settings [where environ = demo_environ and key = "S ''test-key''"
      and temp = "Float (S ''0.3'')" and tokens = 2000 and client = demo_client
      and instructions = "S ''Return a JSON object.''"]
    key model temp tokens
  show ?thesis by simp
qed

text \<open>The claim as stated fails: with the key set and \<^verbatim>\<open>MAX_TOKENS=abc\<close> the
  initialization raises the \<open>ValueError\<close> of \<^verbatim>\<open>int()\<close>.\<close>

theorem init_with_key_can_fail:
  "(demo_environ(S ''MAX_TOKENS'' \<mapsto> S ''abc'')) (S ''OPENAI_API_KEY'') = Some (S ''test-key'') \<and>
   TestCaseGenerator_init demo_client (S ''Return a JSON object.'')
       (demo_environ(S ''MAX_TOKENS'' \<mapsto> S ''abc'')) =
     Inl (ValueError (S ''invalid literal for int() with base 10: '') (ReprOf (S ''abc'')))"
  by (simp add: TestCaseGenerator_init_def demo_environ_def S_def builtin_eval)

section \<open>Properties of the choice of the text to decode\<close>

text \<open>The two searches for a string \<open>n\<close> in a text: they find nothing exactly when \<open>n\<close>
  does not occur, and otherwise split the text at the first occurrence.\<close>

lemma fence_not_Nil: "fence \<noteq> []" "fence_json \<noteq> []"
  by (simp_all add: fence_def fence_json_def)

lemma find_before_None: "n \<noteq> [] \<Longrightarrow> find_before n t = None \<longleftrightarrow> \<not> sublist n t"
  by (induction t) (simp_all add: sublist_Cons_right)

lemma find_after_None: "n \<noteq> [] \<Longrightarrow> find_after n t = None \<longleftrightarrow> \<not> sublist n t"
  by (induction t) (simp_all add: sublist_Cons_right)

lemma find_before_decomp: "find_before n t = Some a \<Longrightarrow> \<exists>r. t = a @ n @ r"
proof (induction t arbitrary: a)
  case Nil
  then show ?case by (simp split: if_splits)
next
  case (Cons c cs)
  show ?case
  proof (cases "prefix n (c # cs)")
    case True
    then obtain zs where "c # cs = n @ zs" by (auto simp: prefix_def)
    moreover from Cons.prems True have "a = []" by simp
    ultimately have "c # cs = a @ n @ zs" by simp
    then show ?thesis by (rule exI)
  next
    case False
    with Cons.prems obtain a' where a': "find_before n cs = Some a'" "a = c # a'"
      by auto
    from Cons.IH [OF a'(1)] obtain r where "cs = a' @ n @ r" ..
    with a'(2) have "c # cs = a @ n @ r" by simp
    then show ?thesis by (rule exI)
  qed
qed

lemma find_before_clean:
  assumes "n \<noteq> []" "find_before n t = Some a"
  shows "\<not> sublist n a"
  using assms(2)
proof (induction t arbitrary: a)
  case Nil
  with assms(1) show ?case by simp
next
  case (Cons c cs)
  show ?case
  proof (cases "prefix n (c # cs)")
    case True
    with Cons.prems assms(1) show ?thesis by simp
  next
    case False
    with Cons.prems obtain a' where a': "find_before n cs = Some a'" "a = c # a'"
      by auto
    from find_before_decomp [OF a'(1)] obtain r where r: "cs = a' @ n @ r" ..
    have "\<not> prefix n (c # a')"
    proof
      assume "prefix n (c # a')"
      then have "prefix n ((c # a') @ n @ r)" by (rule prefix_prefix)
      with False r show False by simp
    qed
    with Cons.IH [OF a'(1)] a'(2) show ?thesis by (simp add: sublist_Cons_right)
  qed
qed

lemma prefix_of_first_part:
  assumes "prefix n (xs @ ys)" "length n \<le> length xs"
  shows "prefix n xs"
proof -
  from assms(1) have "prefix n xs \<or> (\<exists>us. n = xs @ us \<and> prefix us ys)"
    by (simp add: prefix_append)
  then show ?thesis
  proof
    assume "prefix n xs"
    then show ?thesis .
  next
    assume "\<exists>us. n = xs @ us \<and> prefix us ys"
    then obtain us where "n = xs @ us" by blast
    with assms(2) have "n = xs" by simp
    then show ?thesis by simp
  qed
qed

lemma not_prefix_before_first:
  assumes "n \<noteq> []" "\<not> sublist n ((c # pre) @ butlast n)"
  shows "\<not> prefix n (c # pre @ n @ rest)"
proof
  assume p: "prefix n (c # pre @ n @ rest)"
  have "c # pre @ n @ rest = ((c # pre) @ butlast n) @ ([last n] @ rest)"
    using assms(1) by simp
  with p have "prefix n (((c # pre) @ butlast n) @ ([last n] @ rest))" by simp
  moreover have "length n \<le> length ((c # pre) @ butlast n)" by simp
  ultimately have "prefix n ((c # pre) @ butlast n)" by (rule prefix_of_first_part)
  with assms(2) show False by (simp del: append_Cons)
qed

lemma find_after_first:
  "n \<noteq> [] \<Longrightarrow> \<not> sublist n (pre @ butlast n) \<Longrightarrow> find_after n (pre @ n @ rest) = Some rest"
proof (induction pre)
  case Nil
  show ?case using find_after_here [of n rest] by simp
next
  case (Cons c pre)
  from Cons.prems have "\<not> prefix n (c # pre @ n @ rest)" by (rule not_prefix_before_first)
  moreover from Cons.prems(2) have "\<not> sublist n (pre @ butlast n)"
    by (simp add: sublist_Cons_right)
  ultimately show ?case using Cons.IH Cons.prems(1) by simp
qed

lemma find_before_first:
  "n \<noteq> [] \<Longrightarrow> \<not> sublist n (inner @ butlast n) \<Longrightarrow>
     find_before n (inner @ n @ post) = Some inner"
proof (induction inner)
  case Nil
  then show ?case by (cases n) simp_all
next
  case (Cons c inner)
  from Cons.prems have "\<not> prefix n (c # inner @ n @ post)" by (rule not_prefix_before_first)
  moreover from Cons.prems(2) have "\<not> sublist n (inner @ butlast n)"
    by (simp add: sublist_Cons_right)
  ultimately show ?case using Cons.IH Cons.prems(1) by simp
qed

text \<open>The matcher and the block in words agree, part by part.\<close>

lemma prefix_fence_space: "is_space c \<Longrightarrow> \<not> prefix fence (c # cs)"
  by (rule prefix_fence_Cons) (rule is_space_backtick)

lemma ws_then_fence_eq:
  "ws_then_fence s \<longleftrightarrow>
     (case find_before fence s of None \<Rightarrow> False | Some inner \<Rightarrow> list_all is_space inner)"
proof (induction s)
  case Nil
  show ?case by (simp add: fence_not_Nil)
next
  case (Cons c cs)
  show ?case
  proof (cases "prefix fence (c # cs)")
    case True
    then show ?thesis by simp
  next
    case False
    with Cons show ?thesis by (cases "find_before fence cs") simp_all
  qed
qed

lemma rstrip_Cons:
  "rev (dropWhile is_space (rev (c # xs))) =
     (if list_all is_space (c # xs) then [] else c # rev (dropWhile is_space (rev xs)))"
  by (simp add: dropWhile_append list_all_iff)

lemma lazy_group_eq:
  "lazy_group s =
     map_option (\<lambda>inner. rev (dropWhile is_space (rev inner))) (find_before fence s)"
proof (induction s)
  case Nil
  show ?case by (simp add: fence_not_Nil)
next
  case (Cons c cs)
  show ?case
  proof (cases "prefix fence (c # cs)")
    case True
    then show ?thesis by simp
  next
    case False
    show ?thesis
    proof (cases "find_before fence cs")
      case None
      with False Cons show ?thesis by (simp add: ws_then_fence_eq)
    next
      case (Some inner)
      with False Cons show ?thesis
        by (simp add: ws_then_fence_eq [of cs] rstrip_Cons del: rev.simps)
    qed
  qed
qed

lemma after_open_eq: "after_open s = map_option strip_space (find_before fence s)"
proof (induction s)
  case Nil
  show ?case by (simp add: fence_not_Nil)
next
  case (Cons c cs)
  show ?case
  proof (cases "is_space c")
    case True
    then have "\<not> prefix fence (c # cs)" by (rule prefix_fence_space)
    with True Cons show ?thesis
      by (cases "find_before fence cs")
        (simp_all add: lazy_group_eq strip_space_def del: lazy_group.simps)
  next
    case False
    have "strip_space inner = rev (dropWhile is_space (rev inner))"
      if "find_before fence (c # cs) = Some inner" for inner
    proof (cases "prefix fence (c # cs)")
      case True
      with that show ?thesis by (simp add: strip_space_def)
    next
      case p: False
      with that obtain a where "inner = c # a" by auto
      with False show ?thesis by (simp add: strip_space_def)
    qed
    with False show ?thesis
      by (cases "find_before fence (c # cs)")
        (simp_all add: lazy_group_eq del: lazy_group.simps find_before.simps)
  qed
qed

lemma prefix_fence_json: "prefix fence_json s \<Longrightarrow> prefix fence s"
  by (auto simp: fence_json_def prefix_def)

lemma no_fence_no_match: "\<not> sublist fence s \<Longrightarrow> re_search_fence s = None"
proof (induction s)
  case Nil
  show ?case by simp
next
  case (Cons c cs)
  then have "\<not> prefix fence (c # cs)" "\<not> sublist fence cs"
    by (simp_all add: sublist_Cons_right)
  with Cons.IH prefix_fence_json [of "c # cs"] show ?case by auto
qed

lemma no_fence_after_tag:
  assumes "prefix fence_json (c # cs)" "\<not> sublist fence (drop 7 (c # cs))"
  shows "\<not> sublist fence cs"
proof -
  from assms(1) obtain rest where r: "c # cs = fence_json @ rest" by (auto simp: prefix_def)
  then have "drop 7 (c # cs) = rest" by (simp add: fence_json_def fence_def S_def)
  with assms(2) have "\<not> sublist fence rest" by simp
  moreover from r have "cs = [96, 96, 106, 115, 111, 110] @ rest"
    by (simp add: fence_json_def fence_def S_def)
  ultimately show ?thesis
    by (simp add: sublist_Cons_right fence_def)
qed

lemma re_search_fence_eq: "re_search_fence s = spec_fenced_block s"
proof (induction s)
  case Nil
  show ?case by (simp add: spec_fenced_block_def fence_not_Nil)
next
  case (Cons c cs)
  show ?case
  proof (cases "prefix fence_json (c # cs)")
    case False
    with Cons show ?thesis by (simp add: spec_fenced_block_def)
  next
    case True
    have len: "length fence_json = 7" by (simp add: fence_json_def fence_def S_def)
    show ?thesis
    proof (cases "find_before fence (drop 7 (c # cs))")
      case None
      then have "\<not> sublist fence (drop 7 (c # cs))"
        by (simp add: find_before_None fence_not_Nil)
      with True have "\<not> sublist fence cs" by (rule no_fence_after_tag)
      then have "re_search_fence cs = None" by (rule no_fence_no_match)
      with True None show ?thesis
        by (simp add: spec_fenced_block_def after_open_eq len del: after_open.simps)
    next
      case (Some inner)
      with True show ?thesis
        by (simp add: spec_fenced_block_def after_open_eq len del: after_open.simps)
    qed
  qed
qed

text \<open>What is found holds no fence, so the search finds nothing in it.\<close>

lemma sublist_strip_space: "sublist (strip_space s) s"
proof -
  have "prefix (rev (dropWhile is_space (rev t))) t" for t
  proof -
    have "rev t = takeWhile is_space (rev t) @ dropWhile is_space (rev t)" by simp
    then have "rev (rev t) =
        rev (dropWhile is_space (rev t)) @ rev (takeWhile is_space (rev t))"
      by (simp only: rev_append [symmetric])
    then have "t = rev (dropWhile is_space (rev t)) @ rev (takeWhile is_space (rev t))"
      by (simp only: rev_rev_ident)
    then show ?thesis by (rule prefixI)
  qed
  then have "sublist (strip_space s) (dropWhile is_space s)"
    unfolding strip_space_def by (rule prefix_imp_sublist)
  moreover have "sublist (dropWhile is_space s) s"
    using suffix_dropWhile by (rule suffix_imp_sublist)
  ultimately show ?thesis by (rule sublist_order.order_trans)
qed

lemma spec_fenced_block_clean:
  assumes "spec_fenced_block r = Some block"
  shows "\<not> sublist fence block"
proof -
  from assms obtain rest inner where
    inner: "find_before fence rest = Some inner" and block: "block = strip_space inner"
    by (auto simp: spec_fenced_block_def split: option.splits)
  from find_before_clean [OF fence_not_Nil(1) inner] have "\<not> sublist fence inner" .
  moreover have "sublist block inner" unfolding block by (rule sublist_strip_space)
  ultimately show ?thesis using sublist_order.order_trans by blast
qed

lemma extract_json_text_idem: "extract_json_text (extract_json_text r) = extract_json_text r"
proof (cases "spec_fenced_block r")
  case None
  then show ?thesis by (simp add: extract_json_text_def re_search_fence_eq)
next
  case (Some block)
  from spec_fenced_block_clean [OF this] have "re_search_fence block = None"
    by (rule no_fence_no_match)
  with Some show ?thesis by (simp add: extract_json_text_def re_search_fence_eq)
qed

lemma parse_ai_response_extract:
  "extract_json_text r = extract_json_text r' \<Longrightarrow> parse_ai_response rt r = parse_ai_response rt r'"
  by (simp add: parse_ai_response_def)

lemma no_backtick_no_fence: "96 \<notin> set s \<Longrightarrow> \<not> sublist fence (s @ [96, 96])"
  by (induction s) (simp_all add: sublist_Cons_right fence_def)

text \<open>
  Claim C4, amended. For every reply, the text that is decoded is the one between the
  first fence tagged \<^verbatim>\<open>json\<close> and the next fence after it, without the white space at
  its two ends, when the reply has such a block, and the whole reply otherwise (also when
  it has fenced blocks without the tag). The reply is then parsed as that text alone is.
  Spelled out: a reply in which \<^verbatim>\<open>```json\<close> does not occur is decoded whole, as is one
  in which no fence follows the first \<^verbatim>\<open>```json\<close>; and when \<open>pre\<close> is what stands before
  the first \<^verbatim>\<open>```json\<close> and \<open>inner\<close> what stands between it and the next fence, the reply
  is parsed as \<open>inner\<close> without the white space at its ends is, whatever stands before and
  after the block.
\<close>

theorem fenced_json_is_extracted:
  "extract_json_text r = (case spec_fenced_block r of Some block \<Rightarrow> block | None \<Rightarrow> r) \<and>
   parse_ai_response rt r = parse_ai_response rt (extract_json_text r) \<and>
   (\<not> sublist fence_json r \<longrightarrow> extract_json_text r = r) \<and>
   (\<not> sublist fence_json (pre @ butlast fence_json) \<and> \<not> sublist fence rest \<longrightarrow>
      extract_json_text (pre @ fence_json @ rest) = pre @ fence_json @ rest) \<and>
   (\<not> sublist fence_json (pre @ butlast fence_json) \<and> \<not> sublist fence (inner @ butlast fence) \<longrightarrow>
      extract_json_text (pre @ fence_json @ inner @ fence @ post) = strip_space inner \<and>
      parse_ai_response rt (pre @ fence_json @ inner @ fence @ post) =
        parse_ai_response rt (strip_space inner))"
proof (intro conjI impI)
  show e: "extract_json_text r = (case spec_fenced_block r of Some block \<Rightarrow> block | None \<Rightarrow> r)"
    for r
    by (simp add: extract_json_text_def re_search_fence_eq)
  show p: "parse_ai_response rt r = parse_ai_response rt (extract_json_text r)" for r
    by (rule parse_ai_response_extract) (simp add: extract_json_text_idem)
  show "extract_json_text r = r" if "\<not> sublist fence_json r"
  proof -
    from that have "find_after fence_json r = None"
      by (simp add: find_after_None fence_not_Nil)
    then show ?thesis by (simp add: e spec_fenced_block_def)
  qed
  show "extract_json_text (pre @ fence_json @ rest) = pre @ fence_json @ rest"
    if "\<not> sublist fence_json (pre @ butlast fence_json) \<and> \<not> sublist fence rest"
  proof -
    from that have "find_before fence rest = None"
      by (simp add: find_before_None fence_not_Nil)
    with that show ?thesis
      by (simp add: e spec_fenced_block_def find_after_first fence_not_Nil)
  qed
  assume a: "\<not> sublist fence_json (pre @ butlast fence_json) \<and>
    \<not> sublist fence (inner @ butlast fence)"
  then show x: "extract_json_text (pre @ fence_json @ inner @ fence @ post) = strip_space inner"
    by (simp add: e spec_fenced_block_def find_after_first find_before_first fence_not_Nil)
  show "parse_ai_response rt (pre @ fence_json @ inner @ fence @ post) =
      parse_ai_response rt (strip_space inner)"
    using p [of "pre @ fence_json @ inner @ fence @ post"] by (simp only: x)
qed

theorem fenced_json_is_extracted_witness:
  "parse_ai_response demo_runtime
     (S ''Call `run` on this:'' @ [10] @ fence_json @ [10] @ demo_reply @ [10] @ fence @
      [10] @ S ''Let me know if you need more.'') = Inr demo_parsed \<and>
   extract_json_text (S ''No block here'') = S ''No block here'' \<and>
   extract_json_text (fence_json @ demo_reply) = fence_json @ demo_reply"
proof -
  let ?pre = "S ''Call `run` on this:'' @ [10]"
  let ?post = "[10] @ S ''Let me know if you need more.''"
  have pre: "\<not> sublist fence_json (?pre @ butlast fence_json)"
    by (simp add: S_def fence_json_def fence_def sublist_Cons_right)
  have "96 \<notin> set ([10] @ demo_reply @ [10])"
    by (simp add: demo_reply_def S_def)
  then have "\<not> sublist fence (([10] @ demo_reply @ [10]) @ [96, 96])"
    by (rule no_backtick_no_fence)
  then have inner: "\<not> sublist fence (([10] @ demo_reply @ [10]) @ butlast fence)"
    by (simp add: fence_def)
  have "dropWhile is_space (rev (demo_reply @ [10])) = rev demo_reply"
    by (simp add: demo_reply_def S_def is_space_def)
  moreover have "dropWhile is_space ([10] @ demo_reply @ [10]) = demo_reply @ [10]"
    by (simp add: demo_reply_def S_def is_space_def)
  ultimately have strip: "strip_space ([10] @ demo_reply @ [10]) = demo_reply"
    by (simp add: strip_space_def)
  have none: "\<not> sublist fence_json (S ''No block here'')"
    by (simp add: S_def fence_json_def fence_def sublist_Cons_right)
  have first: "\<not> sublist fence_json (butlast fence_json)"
    by (simp add: S_def fence_json_def fence_def sublist_Cons_right)
  have "96 \<notin> set demo_reply"
    by (simp add: demo_reply_def S_def)
  then have "\<not> sublist fence (demo_reply @ [96, 96])"
    by (rule no_backtick_no_fence)
  then have unclosed: "\<not> sublist fence demo_reply"
    using sublist_order.order_trans [OF _ sublist_append_rightI] by blast
  from fenced_json_is_extracted [where pre = ?pre and inner = "[10] @ demo_reply @ [10]"
      and post = ?post and rt = demo_runtime] pre inner
  have "parse_ai_response demo_runtime
      (?pre @ fence_json @ ([10] @ demo_reply @ [10]) @ fence @ ?post) =
      parse_ai_response demo_runtime (strip_space ([10] @ demo_reply @ [10]))"
    by blast
  then have 1: "parse_ai_response demo_runtime
      (?pre @ fence_json @ [10] @ demo_reply @ [10] @ fence @ ?post) = Inr demo_parsed"
    by (simp only: strip demo_reply_parsed append_assoc)
  from fenced_json_is_extracted [where r = "S ''No block here''"] none
  have 2: "extract_json_text (S ''No block here'') = S ''No block here''" by blast
  from fenced_json_is_extracted [where pre = "[]" and rest = demo_reply, unfolded append_Nil]
    first unclosed
  have 3: "extract_json_text (fence_json @ demo_reply) = fence_json @ demo_reply" by blast
  from 1 2 3 show ?thesis by simp
qed

text \<open>The claim as stated fails: a well-formed reply inside a fenced block that is not
  tagged \<^verbatim>\<open>json\<close> is not extracted, the whole reply is decoded and the decoder rejects
  it, although the fenced text alone parses into a suite.\<close>

theorem untagged_fence_is_not_extracted:
  "parse_ai_response demo_runtime demo_reply = Inr demo_parsed \<and>
   parse_ai_response demo_runtime (fence @ [10] @ demo_reply @ [10] @ fence) =
     Inl (ValueError (S ''Failed to parse AI response as JSON: '') (StrOf JSONDecodeError))"
proof -
  have "re_search_fence (fence @ [10] @ demo_reply @ [10] @ fence) = None"
    by (simp add: demo_reply_def S_def fence_eval)
  moreover have "json_loads 4300 900 (fence @ [10] @ demo_reply @ [10] @ fence) =
      Inl JSONDecodeError"
    by (simp add: fence_def json_eval S_def)
  ultimately have "parse_ai_response demo_runtime (fence @ [10] @ demo_reply @ [10] @ fence) =
      Inl (ValueError (S ''Failed to parse AI response as JSON: '') (StrOf JSONDecodeError))"
    by (simp add: parse_ai_response_cases extract_json_text_def demo_runtime_def)
  with demo_reply_parsed show ?thesis by (rule conjI)
qed

section \<open>The round trip through JSON\<close>

subsection \<open>Strings\<close>

lemma hex_val_hex_digit: "n < 16 \<Longrightarrow> hex_val (hex_digit n) = Some n"
  by (auto simp: hex_val_def hex_digit_def)

lemma scanstring_control:
  assumes "c < 32"
  shows "scanstring ([92, 117, 48, 48, hex_digit (c div 16), hex_digit (c mod 16)] @ rest) =
      put c (scanstring rest)"
proof -
  have d: "c div 16 < 16" "c mod 16 < 16" using assms by simp_all
  have h: "hex4 (48 # 48 # hex_digit (c div 16) # hex_digit (c mod 16) # rest) = Some c"
    using hex_val_hex_digit [OF d(1)] hex_val_hex_digit [OF d(2)]
    by (simp add: hex_val_def)
  have s: "\<not> is_high_surrogate c" using assms by (simp add: is_high_surrogate_def)
  show ?thesis by (simp add: h s del: hex4.simps)
qed

lemma scanstring_escape_char:
  "scanstring (escape_char c @ rest) = put c (scanstring rest)"
proof -
  consider "c = 34" | "c = 92" | "c = 8" | "c = 9" | "c = 10" | "c = 12" | "c = 13"
    | "c < 32" "c \<notin> {8, 9, 10, 12, 13}" | "32 \<le> c" "c \<noteq> 34" "c \<noteq> 92"
    by fastforce
  then show ?thesis
  proof cases
    case 8
    then have "escape_char c = [92, 117, 48, 48, hex_digit (c div 16), hex_digit (c mod 16)]"
      by (auto simp: escape_char_def)
    with scanstring_control [OF 8(1)] show ?thesis by simp
  qed (simp_all add: escape_char_def unescape_def)
qed

lemma scanstring_escaped:
  "scanstring (concat (map escape_char s) @ 34 # rest) = Some (s, rest)"
  by (induction s) (simp_all add: scanstring_escape_char put_def)

lemma scan_once_json_string:
  "scan_once limit room (json_string s @ rest) = Inr (JString s, rest)"
  by (simp add: json_string_def scanstring_escaped)

lemma parse_key:
  "scanstring (tl (json_string k) @ rest) = Some (k, rest)" "hd (json_string k) = 34"
  by (simp_all add: json_string_def scanstring_escaped)

subsection \<open>Integers\<close>

lemma int_of_digits_snoc:
  "int_of_digits acc (xs @ [d]) = int_of_digits acc xs * 10 + (d - 48)"
  by (induction xs arbitrary: acc) simp_all

lemma str_nat_digits:
  "list_all is_digit (str_nat n) \<and> str_nat n \<noteq> [] \<and> int_of_digits 0 (str_nat n) = n \<and>
   (hd (str_nat n) = 48 \<longleftrightarrow> n = 0)"
proof (induction n rule: str_nat.induct)
  case (1 n)
  show ?case
  proof (cases "n < 10")
    case True
    then have "str_nat n = [48 + n]" by (subst str_nat.simps) simp
    with True show ?thesis by (simp add: is_digit_def)
  next
    case False
    then have s: "str_nat n = str_nat (n div 10) @ [48 + n mod 10]"
      by (subst str_nat.simps) simp
    from False have "n div 10 \<noteq> 0" by simp
    with 1 [OF False] False show ?thesis
      unfolding s by (simp add: is_digit_def int_of_digits_snoc)
  qed
qed

lemma span_digits:
  "list_all is_digit ds \<Longrightarrow> delim r \<Longrightarrow>
     takeWhile is_digit (ds @ r) = ds \<and> dropWhile is_digit (ds @ r) = r"
  by (induction ds) (auto simp: delim_def is_digit_def split: list.splits)

lemma scan_int_str_nat:
  assumes "delim r"
  shows "scan_int (str_nat n @ r) = Some (str_nat n, r)"
proof -
  from str_nat_digits [of n] obtain d ds where
    s: "str_nat n = d # ds" and d: "is_digit d" and ds: "list_all is_digit ds"
    and z: "d = 48 \<longleftrightarrow> n = 0"
    by (cases "str_nat n") auto
  show ?thesis
  proof (cases "n = 0")
    case True
    then have "str_nat n = [48]" by (simp add: str_nat.simps)
    then show ?thesis by (simp add: scan_int_def)
  next
    case False
    with z have "d \<noteq> 48" by simp
    with d span_digits [OF ds assms] show ?thesis by (simp add: s scan_int_def)
  qed
qed

lemma scan_frac_delim: "delim r \<Longrightarrow> scan_frac r = ([], r)"
  by (auto simp: delim_def scan_frac_def split: list.splits)

lemma scan_exp_delim: "delim r \<Longrightarrow> scan_exp r = ([], r)"
  by (auto simp: delim_def scan_exp_def split: list.splits)

lemma hd_str_nat: "is_digit (hd (str_nat n))"
  using str_nat_digits [of n] by (cases "str_nat n") simp_all

lemma int_digits_cases:
  "i < 0 \<Longrightarrow> int_digits i = length (str_nat (nat (- i)))"
  "\<not> i < 0 \<Longrightarrow> int_digits i = length (str_nat (nat i))"
  by (simp_all add: int_digits_def)

lemma match_number_str_int:
  assumes "delim r"
  shows "match_number limit (str_int i @ r) =
      (if within_digit_limit limit (int_digits i) then Inr (JInt i, r) else Inl DigitLimitError)"
proof (cases "i < 0")
  case True
  then have m: "scan_minus (str_int i @ r) = ([45], str_nat (nat (- i)) @ r)"
    by (simp add: scan_minus_def str_int_def)
  have v: "int_of_digits 0 (str_nat (nat (- i))) = nat (- i)"
    using str_nat_digits [of "nat (- i)"] by blast
  show ?thesis
    using True
    by (simp add: match_number_def m scan_int_str_nat [OF assms] scan_frac_delim [OF assms]
        scan_exp_delim [OF assms] v int_digits_cases)
next
  case False
  obtain d ds where s: "str_nat (nat i) = d # ds" and d: "is_digit d"
    using str_nat_digits [of "nat i"] by (cases "str_nat (nat i)") auto
  from d have "d \<noteq> 45" by (simp add: is_digit_def)
  with False have m: "scan_minus (str_int i @ r) = ([], str_nat (nat i) @ r)"
    by (simp add: scan_minus_def str_int_def s)
  have v: "int_of_digits 0 (str_nat (nat i)) = nat i"
    using str_nat_digits [of "nat i"] by blast
  show ?thesis
    using False
    by (simp add: match_number_def m scan_int_str_nat [OF assms] scan_frac_delim [OF assms]
        scan_exp_delim [OF assms] v int_digits_cases)
qed

lemma scan_once_str_int:
  assumes "delim r"
  shows "scan_once limit room (str_int i @ r) =
      (if within_digit_limit limit (int_digits i) then Inr (JInt i, r) else Inl DigitLimitError)"
proof -
  have "\<exists>c cs. str_int i @ r = c # cs \<and> (is_digit c \<or> c = 45 \<and> cs \<noteq> [] \<and> is_digit (hd cs))"
  proof (cases "i < 0")
    case True
    obtain d ds where "str_nat (nat (- i)) = d # ds" "is_digit d"
      using str_nat_digits [of "nat (- i)"] by (cases "str_nat (nat (- i))") auto
    with True show ?thesis by (simp add: str_int_def)
  next
    case False
    obtain d ds where "str_nat (nat i) = d # ds" "is_digit d"
      using str_nat_digits [of "nat i"] by (cases "str_nat (nat i)") auto
    with False show ?thesis by (simp add: str_int_def)
  qed
  then obtain c cs where s: "str_int i @ r = c # cs"
    and c: "is_digit c \<or> c = 45 \<and> cs \<noteq> [] \<and> is_digit (hd cs)" by blast
  have "scan_once limit room (c # cs) = match_number limit (c # cs)"
  proof (cases "is_digit c")
    case True
    then show ?thesis by (simp add: is_digit_def S_def)
  next
    case False
    with c obtain d ds where "c = 45" "cs = d # ds" "is_digit d" by (cases cs) auto
    then show ?thesis by (simp add: is_digit_def S_def)
  qed
  with match_number_str_int [OF assms, of limit i] show ?thesis by (simp only: s)
qed

subsection \<open>Lists and objects\<close>

lemma skip_ws_text: "\<not> is_json_ws c \<Longrightarrow> skip_ws (c # cs) = c # cs"
  by (simp add: skip_ws_def)

lemma skip_ws_line: "\<not> is_json_ws c \<Longrightarrow> skip_ws (10 # indentation w k @ c # cs) = c # cs"
proof -
  assume c: "\<not> is_json_ws c"
  have "dropWhile is_json_ws (indentation w k @ c # cs) = dropWhile is_json_ws (c # cs)"
    by (rule dropWhile_append2) (simp add: indentation_def is_json_ws_def)
  with c show ?thesis by (simp add: skip_ws_def is_json_ws_def)
qed

lemma skip_ws_blank: "\<not> is_json_ws c \<Longrightarrow> skip_ws (32 # c # cs) = c # cs"
  by (simp add: skip_ws_def is_json_ws_def)

lemma update_fresh: "k \<notin> fst ` set d \<Longrightarrow> AList.update k v d = d @ [(k, v)]"
  by (induction d) auto

lemma foldl_update_distinct:
  "distinct (map fst (d @ kvs)) \<Longrightarrow>
     foldl (\<lambda>d (k, v). AList.update k v d) d kvs = d @ kvs"
proof (induction kvs arbitrary: d)
  case Nil
  show ?case by simp
next
  case (Cons kv kvs)
  obtain k v where kv: "kv = (k, v)" by (cases kv)
  from Cons.prems have "k \<notin> fst ` set d" by (auto simp: kv)
  then have u: "AList.update k v d = d @ [(k, v)]" by (rule update_fresh)
  from Cons.prems have "distinct (map fst ((d @ [(k, v)]) @ kvs))" by (simp add: kv)
  from Cons.IH [OF this] show ?case by (simp add: kv u)
qed

lemma dict_of_pairs_distinct: "distinct (map fst kvs) \<Longrightarrow> dict_of_pairs kvs = kvs"
  using foldl_update_distinct [of "[]" kvs] by (simp add: dict_of_pairs_def)

lemma scan_array:
  assumes "E = c # cs" "\<not> is_json_ws c" "c \<noteq> 93" "room \<noteq> 0"
    "parse_array limit (room - 1) (E @ tail) = Inr (vs, r)"
  shows "scan_once limit room ([91, 10] @ indentation w k @ E @ tail) = Inr (JArray vs, r)"
proof -
  have "skip_ws (10 # indentation w k @ c # cs @ tail) = c # cs @ tail"
    using assms(2) by (rule skip_ws_line)
  with assms show ?thesis by (simp del: parse_array.simps)
qed

lemma scan_object:
  assumes "E = 34 # cs" "room \<noteq> 0" "parse_object limit (room - 1) (E @ tail) = Inr (kvs, r)"
  shows "scan_once limit room ([123, 10] @ indentation w k @ E @ tail) =
      Inr (JObject (dict_of_pairs kvs), r)"
proof -
  have "skip_ws (10 # indentation w k @ 34 # cs @ tail) = 34 # cs @ tail"
    by (rule skip_ws_line) (simp add: is_json_ws_def)
  with assms show ?thesis by (simp del: parse_object.simps)
qed

lemma array_last:
  assumes "scan_once limit room (X @ 10 # indentation w m @ 93 # r) =
      Inr (x, 10 # indentation w m @ 93 # r)"
  shows "parse_array limit room (X @ [10] @ indentation w m @ [93] @ r) = Inr ([x], r)"
proof -
  have "skip_ws (10 # indentation w m @ 93 # r) = 93 # r"
    by (rule skip_ws_line) (simp add: is_json_ws_def)
  with assms show ?thesis
    by (subst parse_array.simps) (simp del: scan_once.simps parse_array.simps)
qed

lemma array_next:
  assumes "scan_once limit room (X @ 44 # 10 # indentation w k @ E @ tail) =
      Inr (x, 44 # 10 # indentation w k @ E @ tail)"
    and "E = c # cs" "\<not> is_json_ws c" "parse_array limit room (E @ tail) = Inr (vs, r)"
  shows "parse_array limit room (X @ [44, 10] @ indentation w k @ E @ tail) = Inr (x # vs, r)"
proof -
  have "skip_ws (44 # 10 # indentation w k @ E @ tail) = 44 # 10 # indentation w k @ E @ tail"
    by (rule skip_ws_text) (simp add: is_json_ws_def)
  moreover have "skip_ws (10 # indentation w k @ E @ tail) = E @ tail"
    unfolding assms(2) using skip_ws_line [OF assms(3), of w k "cs @ tail"] by simp
  ultimately show ?thesis
    using assms(1,4)
    by (subst parse_array.simps) (simp del: scan_once.simps parse_array.simps)
qed

lemma member_last:
  assumes "V = c # cs" "\<not> is_json_ws c"
    and "scan_once limit room (V @ 10 # indentation w m @ 125 # r) =
      Inr (v, 10 # indentation w m @ 125 # r)"
  shows "parse_object limit room
      (json_string k @ [58, 32] @ V @ [10] @ indentation w m @ [125] @ r) = Inr ([(k, v)], r)"
proof -
  let ?rest = "10 # indentation w m @ 125 # r"
  have key: "scanstring (concat (map escape_char k) @ 34 # 58 # 32 # V @ ?rest) =
      Some (k, 58 # 32 # V @ ?rest)"
    by (rule scanstring_escaped)
  have colon: "skip_ws (58 # 32 # V @ ?rest) = 58 # 32 # V @ ?rest"
    by (rule skip_ws_text) (simp add: is_json_ws_def)
  have blank: "skip_ws (32 # V @ ?rest) = V @ ?rest"
    unfolding assms(1) using assms(2) skip_ws_blank [of c "cs @ ?rest"] by simp
  have close: "skip_ws ?rest = 125 # r"
    by (rule skip_ws_line) (simp add: is_json_ws_def)
  have "parse_object limit room (34 # concat (map escape_char k) @ 34 # 58 # 32 # V @ ?rest) =
      Inr ([(k, v)], r)"
    using assms(3)
    by (simp add: key colon blank close del: scanstring.simps scan_once.simps)
  then show ?thesis by (simp add: json_string_def)
qed

lemma member_next:
  assumes "V = c # cs" "\<not> is_json_ws c"
    and "scan_once limit room (V @ 44 # 10 # indentation w n @ M @ tail) =
      Inr (v, 44 # 10 # indentation w n @ M @ tail)"
    and "M = 34 # ms" "parse_object limit room (M @ tail) = Inr (kvs, r)"
  shows "parse_object limit room
      (json_string k @ [58, 32] @ V @ [44, 10] @ indentation w n @ M @ tail) =
      Inr ((k, v) # kvs, r)"
proof -
  let ?rest = "44 # 10 # indentation w n @ M @ tail"
  have key: "scanstring (concat (map escape_char k) @ 34 # 58 # 32 # V @ ?rest) =
      Some (k, 58 # 32 # V @ ?rest)"
    by (rule scanstring_escaped)
  have colon: "skip_ws (58 # 32 # V @ ?rest) = 58 # 32 # V @ ?rest"
    by (rule skip_ws_text) (simp add: is_json_ws_def)
  have blank: "skip_ws (32 # V @ ?rest) = V @ ?rest"
    unfolding assms(1) using assms(2) skip_ws_blank [of c "cs @ ?rest"] by simp
  have comma: "skip_ws ?rest = ?rest"
    by (rule skip_ws_text) (simp add: is_json_ws_def)
  have line: "skip_ws (10 # indentation w n @ M @ tail) = M @ tail"
    unfolding assms(4) using skip_ws_line [of 34 w n "ms @ tail"] by (simp add: is_json_ws_def)
  have "parse_object limit room (34 # concat (map escape_char k) @ 34 # 58 # 32 # V @ ?rest) =
      Inr ((k, v) # kvs, r)"
    using assms(3,5)
    by (subst parse_object.simps)
      (simp add: key colon blank comma line
        del: scanstring.simps scan_once.simps parse_object.simps)
  then show ?thesis by (simp add: json_string_def)
qed

lemma delim_line: "delim (10 # s)" and delim_comma: "delim (44 # s)" and delim_Nil: "delim []"
  by (simp_all add: delim_def)

lemma json_pretty_start:
  "dumpable limit room v \<Longrightarrow>
     \<exists>c cs. json_pretty w n v = c # cs \<and> \<not> is_json_ws c \<and> c \<noteq> 93 \<and> c \<noteq> 125"
proof (cases v)
  case (JInt i)
  have "\<exists>c cs. str_int i = c # cs \<and> (is_digit c \<or> c = 45)"
    using str_nat_digits [of "nat i"] str_nat_digits [of "nat (- i)"]
    by (cases "str_nat (nat i)") (auto simp: str_int_def)
  then show ?thesis using JInt by (auto simp: is_digit_def is_json_ws_def)
next
  case (JArray xs)
  then show ?thesis by (cases xs) (simp_all add: is_json_ws_def)
next
  case (JObject kvs)
  then show ?thesis by (cases kvs) (simp_all add: is_json_ws_def)
qed (simp_all add: json_string_def is_json_ws_def)

lemma pretty_elements_start:
  "dumpable_list limit room (x # xs) \<Longrightarrow>
     \<exists>c cs. pretty_elements w n (x # xs) = c # cs \<and> \<not> is_json_ws c \<and> c \<noteq> 93"
  using json_pretty_start [of limit room x w n] by (cases xs) auto

lemma pretty_members_start:
  "\<exists>cs. pretty_members w n (kv # kvs) = 34 # cs"
  by (cases kv; cases kvs) (simp_all add: json_string_def)

lemma pretty_roundtrip:
  shows "dumpable limit room v \<Longrightarrow> delim r \<Longrightarrow>
      scan_once limit room (json_pretty w n v @ r) = Inr (v, r)"
    and "xs \<noteq> [] \<Longrightarrow> dumpable_list limit room1 xs \<Longrightarrow>
      parse_array limit room1 (pretty_elements w n xs @ [10] @ indentation w m @ [93] @ r1) =
        Inr (xs, r1)"
    and "kvs \<noteq> [] \<Longrightarrow> dumpable_members limit room2 kvs \<Longrightarrow>
      parse_object limit room2 (pretty_members w n kvs @ [10] @ indentation w m' @ [125] @ r2) =
        Inr (kvs, r2)"
proof (induction w n v and w n xs and w n kvs arbitrary: room r and room1 m r1 and room2 m' r2
    rule: json_pretty_pretty_elements_pretty_members.induct)
  case (3 w n i)
  then show ?case by (simp add: scan_once_str_int del: scan_once.simps)
next
  case (5 w n s)
  show ?case by (simp add: scan_once_json_string del: scan_once.simps)
next
  case (6 w n)
  then show ?case by (simp add: skip_ws_def is_json_ws_def)
next
  case (7 w n x xs)
  from "7.prems" have d: "dumpable_list limit (room - 1) (x # xs)" and room: "room \<noteq> 0"
    by simp_all
  from pretty_elements_start [OF d] obtain c cs where
    e: "pretty_elements w (Suc n) (x # xs) = c # cs" "\<not> is_json_ws c" "c \<noteq> 93" by blast
  have "parse_array limit (room - 1)
      (pretty_elements w (Suc n) (x # xs) @ [10] @ indentation w n @ [93] @ r) =
      Inr (x # xs, r)"
    using d by (intro "7.IH") simp_all
  from scan_array [OF e room this] show ?case by (simp del: scan_once.simps)
next
  case (8 w n)
  then show ?case by (simp add: skip_ws_def is_json_ws_def)
next
  case (9 w n kv kvs)
  from "9.prems" have d: "dumpable_members limit (room - 1) (kv # kvs)"
    "distinct (map fst (kv # kvs))" and room: "room \<noteq> 0"
    by simp_all
  from pretty_members_start obtain cs where
    e: "pretty_members w (Suc n) (kv # kvs) = 34 # cs" by blast
  have "parse_object limit (room - 1)
      (pretty_members w (Suc n) (kv # kvs) @ [10] @ indentation w n @ [125] @ r) =
      Inr (kv # kvs, r)"
    using d(1) by (intro "9.IH") simp_all
  from scan_object [OF e room this] dict_of_pairs_distinct [OF d(2)] show ?case
    by (simp del: scan_once.simps)
next
  case (11 w n x)
  from "11.prems" have d: "dumpable limit room1 x" by simp
  have "scan_once limit room1 (json_pretty w n x @ 10 # indentation w m @ 93 # r1) =
      Inr (x, 10 # indentation w m @ 93 # r1)"
    using d by (intro "11.IH") (simp_all add: delim_def)
  from array_last [OF this] show ?case by (simp del: parse_array.simps)
next
  case (12 w n x y ys)
  from "12.prems" have d: "dumpable limit room1 x" "dumpable_list limit room1 (y # ys)"
    by simp_all
  let ?tail = "[10] @ indentation w m @ [93] @ r1"
  from pretty_elements_start [OF d(2)] obtain c cs where
    e: "pretty_elements w n (y # ys) = c # cs" "\<not> is_json_ws c" by blast
  have x: "scan_once limit room1 (json_pretty w n x @ 44 # 10 # indentation w n @
        pretty_elements w n (y # ys) @ ?tail) =
      Inr (x, 44 # 10 # indentation w n @ pretty_elements w n (y # ys) @ ?tail)"
    using d(1) by (intro "12.IH"(1)) (simp_all add: delim_def)
  have "parse_array limit room1 (pretty_elements w n (y # ys) @ ?tail) = Inr (y # ys, r1)"
    using d(2) by (intro "12.IH"(2)) simp_all
  from array_next [OF x e this] show ?case by (simp del: parse_array.simps)
next
  case (14 w n k v)
  from "14.prems" have d: "dumpable limit room2 v" by simp
  from json_pretty_start [OF d] obtain c cs where
    s: "json_pretty w n v = c # cs" "\<not> is_json_ws c" by blast
  have "scan_once limit room2 (json_pretty w n v @ 10 # indentation w m' @ 125 # r2) =
      Inr (v, 10 # indentation w m' @ 125 # r2)"
    using d by (intro "14.IH") (simp_all add: delim_def)
  from member_last [OF s this] show ?case by (simp del: parse_object.simps)
next
  case (15 w n k v kv kvs)
  from "15.prems" have d: "dumpable limit room2 v" "dumpable_members limit room2 (kv # kvs)"
    by simp_all
  let ?tail = "[10] @ indentation w m' @ [125] @ r2"
  from json_pretty_start [OF d(1)] obtain c cs where
    s: "json_pretty w n v = c # cs" "\<not> is_json_ws c" by blast
  from pretty_members_start obtain ms where
    e: "pretty_members w n (kv # kvs) = 34 # ms" by blast
  have v: "scan_once limit room2 (json_pretty w n v @ 44 # 10 # indentation w n @
        pretty_members w n (kv # kvs) @ ?tail) =
      Inr (v, 44 # 10 # indentation w n @ pretty_members w n (kv # kvs) @ ?tail)"
    using d(1) by (intro "15.IH"(1)) (simp_all add: delim_def)
  have "parse_object limit room2 (pretty_members w n (kv # kvs) @ ?tail) = Inr (kv # kvs, r2)"
    using d(2) by (intro "15.IH"(2)) simp_all
  from member_next [OF s v e this] show ?case by (simp del: parse_object.simps)
qed simp_all

subsection \<open>Suites\<close>

lemma dumpable_strings: "dumpable_list limit room (map JString xs)"
  by (induction xs) simp_all

lemma dumpable_scenario: "2 \<le> room \<Longrightarrow> dumpable limit room (dump_TestScenario sc)"
  by (simp add: dump_TestScenario_def dumpable_strings S_def)

lemma dumpable_scenarios: "2 \<le> room \<Longrightarrow> dumpable_list limit room (map dump_TestScenario scs)"
  by (induction scs) (simp_all add: dumpable_scenario)

lemma dumpable_suite:
  assumes "4 \<le> room" "within_digit_limit limit (int_digits (total_scenarios ts))"
  shows "dumpable limit room (model_dump ts)"
proof -
  from assms(1) have "2 \<le> room - 1 - 1" by simp
  then have "dumpable_list limit (room - 1 - 1) (map dump_TestScenario (test_scenarios ts))"
    by (rule dumpable_scenarios)
  with assms show ?thesis
    by (simp add: model_dump_def dumpable_strings S_def)
qed

lemma validate_strings: "those (map (validate_str \<circ> JString) xs) = Some xs"
  by (induction xs) (simp_all add: validate_str_def)

lemma validate_dumped_scenario: "validate_TestScenario (dump_TestScenario sc) = Some sc"
  by (simp add: validate_TestScenario_def dump_TestScenario_def field_def validate_str_def
      validate_str_list_def validate_strings S_def)

lemma validate_dumped_scenarios:
  "those (map (validate_TestScenario \<circ> dump_TestScenario) scs) = Some scs"
  by (induction scs) (simp_all add: validate_dumped_scenario)

lemma init_dumped_suite: "TestSuite_init lax (model_dump ts) = Inr ts"
  by (simp add: TestSuite_init_def model_dump_def field_def validate_str_def
      validate_str_list_def validate_strings validate_TestScenario_list_def
      validate_dumped_scenarios validate_int_def S_def)

lemma loads_dumped_suite:
  assumes "4 \<le> room" "within_digit_limit limit (int_digits (total_scenarios ts))"
  shows "json_loads limit room (json_pretty w 0 (model_dump ts)) = Inr (model_dump ts)"
proof -
  have "scan_once limit room (json_pretty w 0 (model_dump ts) @ []) = Inr (model_dump ts, [])"
    using dumpable_suite [OF assms] by (rule pretty_roundtrip(1)) (simp add: delim_def)
  moreover obtain cs where "json_pretty w 0 (model_dump ts) = 123 # cs"
    by (simp add: model_dump_def)
  ultimately show ?thesis
    by (simp add: json_loads_def skip_ws_def is_json_ws_def del: scan_once.simps)
qed

subsection \<open>Renderings without a backtick\<close>

lemma hex_digit_tickfree: "hex_digit n \<noteq> 96"
  by (simp add: hex_digit_def)

lemma escape_char_tickfree: "c \<noteq> 96 \<Longrightarrow> 96 \<notin> set (escape_char c)"
  by (simp add: escape_char_def hex_digit_tickfree [symmetric])

lemma escaped_tickfree: "96 \<notin> set s \<Longrightarrow> 96 \<notin> set (concat (map escape_char s))"
proof (induction s)
  case Nil
  show ?case by simp
next
  case (Cons c s)
  then have "96 \<notin> set (escape_char c)" by (intro escape_char_tickfree) auto
  with Cons show ?case by simp
qed

lemma json_string_tickfree: "96 \<notin> set s \<Longrightarrow> 96 \<notin> set (json_string s)"
  using escaped_tickfree [of s] by (simp add: json_string_def)

lemma str_int_tickfree: "96 \<notin> set (str_int i)"
proof -
  have "96 \<notin> set (str_nat n)" for n
    using str_nat_digits [of n] by (auto simp: list_all_iff is_digit_def)
  then show ?thesis by (simp add: str_int_def)
qed

lemma json_pretty_tickfree:
  shows "tickfree v \<Longrightarrow> 96 \<notin> set (json_pretty w n v)"
    and "tickfree_list xs \<Longrightarrow> 96 \<notin> set (pretty_elements w n xs)"
    and "tickfree_members kvs \<Longrightarrow> 96 \<notin> set (pretty_members w n kvs)"
  by (induction w n v and w n xs and w n kvs
      rule: json_pretty_pretty_elements_pretty_members.induct)
    (simp_all add: json_string_tickfree str_int_tickfree indentation_def S_def)

lemma tickfree_strings: "\<forall>s\<in>set xs. 96 \<notin> set s \<Longrightarrow> tickfree_list (map JString xs)"
  by (induction xs) simp_all

lemma tickfree_scenario:
  assumes "\<forall>s\<in>set (scenario_strings sc). 96 \<notin> set s"
  shows "tickfree (dump_TestScenario sc)"
proof -
  have f: "96 \<notin> set (scenario_id sc)" "96 \<notin> set (title sc)" "96 \<notin> set (description sc)"
    "96 \<notin> set (expected_result sc)" "96 \<notin> set (test_type sc)" "96 \<notin> set (priority sc)"
    using assms by (simp_all add: scenario_strings_def)
  have "\<forall>s\<in>set (preconditions sc). 96 \<notin> set s" "\<forall>s\<in>set (test_steps sc). 96 \<notin> set s"
    using assms by (simp_all add: scenario_strings_def)
  then have l: "tickfree_list (map JString (preconditions sc))"
    "tickfree_list (map JString (test_steps sc))"
    by (simp_all only: tickfree_strings)
  show ?thesis
    unfolding dump_TestScenario_def using f l by (simp add: S_def)
qed

lemma tickfree_scenarios:
  "\<forall>s\<in>set (concat (map scenario_strings scs)). 96 \<notin> set s \<Longrightarrow>
     tickfree_list (map dump_TestScenario scs)"
proof (induction scs)
  case Nil
  show ?case by simp
next
  case (Cons sc scs)
  from Cons.prems have "\<forall>s\<in>set (scenario_strings sc). 96 \<notin> set s"
    and "\<forall>s\<in>set (concat (map scenario_strings scs)). 96 \<notin> set s" by simp_all
  with Cons.IH tickfree_scenario show ?case by simp
qed

lemma tickfree_suite:
  assumes "\<forall>s\<in>set (suite_strings ts). 96 \<notin> set s"
  shows "tickfree (model_dump ts)"
proof -
  have "96 \<notin> set (user_story ts)" using assms by (simp add: suite_strings_def)
  moreover have "tickfree_list (map dump_TestScenario (test_scenarios ts))"
    using assms by (intro tickfree_scenarios) (simp add: suite_strings_def)
  moreover have "tickfree_list (map JString (coverage_areas ts))"
    using assms by (intro tickfree_strings) (simp add: suite_strings_def)
  ultimately show ?thesis
    unfolding model_dump_def by (simp add: S_def)
qed

lemma no_fence_without_backtick:
  "\<forall>s\<in>set (suite_strings ts). 96 \<notin> set s \<Longrightarrow>
     re_search_fence (json_pretty w 0 (model_dump ts)) = None"
  by (simp add: re_search_fence_none json_pretty_tickfree(1) tickfree_suite)

subsection \<open>The rendering of a count of 4301 digits\<close>

lemma str_nat_power_digits: "str_nat (10 ^ k) = 49 # replicate k 48"
proof (induction k)
  case 0
  show ?case by (simp add: str_nat.simps)
next
  case (Suc k)
  have "str_nat (10 ^ k * 10) = str_nat (10 ^ k) @ [48]"
    by (subst str_nat.simps) simp
  with Suc show ?case by (simp add: mult.commute replicate_append_same)
qed

lemma str_int_power_digits: "str_int (10 ^ k) = 49 # replicate k 48"
proof -
  have n: "nat (10 ^ k :: int) = 10 ^ k" by (simp add: nat_power_eq)
  have "\<not> (10 ^ k :: int) < 0" by simp
  then show ?thesis unfolding str_int_def by (simp only: if_False n str_nat_power_digits)
qed

lemma render_count:
  \<open>json_pretty 2 0 (model_dump
       \<lparr>user_story = S ''Test story'', test_scenarios = [], coverage_areas = [],
        total_scenarios = n\<rparr>) =
     [123, 10] @ S ''  "user_story": "Test story",'' @ [10] @
     S ''  "test_scenarios": [],'' @ [10] @ S ''  "coverage_areas": [],'' @ [10] @
     S ''  "total_scenarios": '' @ str_int n @ [10, 125]\<close>
proof -
  have i: "indentation 2 (Suc 0) = [32, 32]" "indentation 2 0 = []"
    by (simp_all add: indentation_def numeral_2_eq_2)
  show ?thesis
    by (simp add: model_dump_def json_string_def escape_char_def i S_def)
qed

lemma loads_huge_count:
  "json_loads 4300 900 (json_pretty 2 0 (model_dump huge_suite)) = Inl DigitLimitError"
proof -
  have tw: "takeWhile is_digit (replicate 4300 48 @ [10, 125]) = replicate 4300 48"
    by (simp add: takeWhile_append is_digit_def)
  have dw: "dropWhile is_digit (replicate 4300 48 @ [10, 125]) = [10, 125]"
    by (simp add: dropWhile_append is_digit_def)
  have \<open>json_loads 4300 900
      ([123, 10] @ S ''  "user_story": "Test story",'' @ [10] @
       S ''  "test_scenarios": [],'' @ [10] @ S ''  "coverage_areas": [],'' @ [10] @
       S ''  "total_scenarios": '' @ (49 # replicate 4300 48) @ [10, 125]) = Inl DigitLimitError\<close>
    by (simp add: S_def json_eval tw dw)
  then show ?thesis
    unfolding huge_suite_def huge_count_def render_count by (simp only: str_int_power_digits)
qed

text \<open>
  Claim C3, amended. For every suite whose strings hold no lone surrogate (so that the
  JSON rendering succeeds), whose JSON rendering holds no match of the fence pattern (so
  for every suite none of whose strings holds a backtick), and whose count the
  interpreter converts to an integer, formatting it with the selector \<^verbatim>\<open>json\<close> and
  parsing the text with the response parser gives the suite back: the same field
  values, the scenarios in the same order. The interpreter has to leave the decoder room
  for four nested calls, as deep as the rendering of a suite nests.
\<close>

theorem json_roundtrip:
  "(format_output rt ts (S ''json'') = Inr rendering \<and>
    re_search_fence rendering = None \<and>
    within_digit_limit (max_str_digits rt) (int_digits (total_scenarios ts)) \<and>
    4 \<le> recursion_room rt \<longrightarrow>
      parse_ai_response rt rendering = Inr ts) \<and>
   ((\<forall>s\<in>set (suite_strings ts). \<not> has_surrogate s) \<longrightarrow>
      format_output rt ts (S ''json'') = Inr (json_pretty 2 0 (model_dump ts))) \<and>
   ((\<forall>s\<in>set (suite_strings ts). \<not> has_surrogate s \<and> 96 \<notin> set s) \<and>
    within_digit_limit (max_str_digits rt) (int_digits (total_scenarios ts)) \<and>
    4 \<le> recursion_room rt \<longrightarrow>
      parse_ai_response rt (json_pretty 2 0 (model_dump ts)) = Inr ts)"
proof (intro conjI impI)
  have parsed: "parse_ai_response rt (json_pretty 2 0 (model_dump ts)) = Inr ts"
    if "re_search_fence (json_pretty 2 0 (model_dump ts)) = None"
      "within_digit_limit (max_str_digits rt) (int_digits (total_scenarios ts))"
      "4 \<le> recursion_room rt"
    using that
    by (simp add: parse_ai_response_cases extract_json_text_def loads_dumped_suite
        init_dumped_suite)
  show "parse_ai_response rt rendering = Inr ts"
    if a: "format_output rt ts (S ''json'') = Inr rendering \<and>
      re_search_fence rendering = None \<and>
      within_digit_limit (max_str_digits rt) (int_digits (total_scenarios ts)) \<and>
      4 \<le> recursion_room rt"
  proof -
    from a have "rendering = json_pretty 2 0 (model_dump ts)"
      by (simp add: format_output_def model_dump_json_def split: if_splits)
    with a parsed show ?thesis by simp
  qed
  show "format_output rt ts (S ''json'') = Inr (json_pretty 2 0 (model_dump ts))"
    if "\<forall>s\<in>set (suite_strings ts). \<not> has_surrogate s"
    using that by (simp add: format_output_def model_dump_json_def list_ex_iff)
  show "parse_ai_response rt (json_pretty 2 0 (model_dump ts)) = Inr ts"
    if a: "(\<forall>s\<in>set (suite_strings ts). \<not> has_surrogate s \<and> 96 \<notin> set s) \<and>
      within_digit_limit (max_str_digits rt) (int_digits (total_scenarios ts)) \<and>
      4 \<le> recursion_room rt"
  proof -
    from a have "\<forall>s\<in>set (suite_strings ts). 96 \<notin> set s" by blast
    then have "re_search_fence (json_pretty 2 0 (model_dump ts)) = None"
      by (rule no_fence_without_backtick)
    with a parsed show ?thesis by blast
  qed
qed

theorem json_roundtrip_witness:
  "format_output demo_runtime demo_parsed (S ''json'') =
     Inr (json_pretty 2 0 (model_dump demo_parsed)) \<and>
   parse_ai_response demo_runtime (json_pretty 2 0 (model_dump demo_parsed)) = Inr demo_parsed"
proof -
  have clean: "\<forall>s\<in>set (suite_strings demo_parsed). \<not> has_surrogate s \<and> 96 \<notin> set s"
    by (simp add: suite_strings_def scenario_strings_def demo_parsed_def S_def
        has_surrogate_def is_surrogate_def)
  have count: "within_digit_limit (max_str_digits demo_runtime)
      (int_digits (total_scenarios demo_parsed))"
    by (simp add: within_digit_limit_def int_digits_def demo_parsed_def str_nat.simps)
  have room: "4 \<le> recursion_room demo_runtime"
    by (simp add: demo_runtime_def)
  from clean have "\<forall>s\<in>set (suite_strings demo_parsed). \<not> has_surrogate s" by blast
  with clean count room json_roundtrip [of demo_runtime demo_parsed]
  show ?thesis by blast
qed

text \<open>
  The claim as stated fails, in three ways. When the story of a suite holds a fenced
  block tagged \<^verbatim>\<open>json\<close>, the parser extracts the text between the fences out of the
  rendering (here the empty text) and the decoder rejects it. When a string of the suite
  holds a lone surrogate, there is no rendering. When the count of the suite has 4301
  digits, the decoder is interrupted as it converts the count of the rendering.
\<close>

theorem json_roundtrip_fails:
  "format_output demo_runtime fenced_suite (S ''json'') =
     Inr (json_pretty 2 0 (model_dump fenced_suite)) \<and>
   parse_ai_response demo_runtime (json_pretty 2 0 (model_dump fenced_suite)) =
     Inl (ValueError (S ''Failed to parse AI response as JSON: '') (StrOf JSONDecodeError)) \<and>
   format_output demo_runtime surrogate_suite (S ''json'') = Inl PydanticSerializationError \<and>
   format_output demo_runtime huge_suite (S ''json'') =
     Inr (json_pretty 2 0 (model_dump huge_suite)) \<and>
   parse_ai_response demo_runtime (json_pretty 2 0 (model_dump huge_suite)) =
     Inl (ValueError (S ''Failed to create TestSuite object: '') (StrOf DigitLimitError))"
proof -
  have i: "indentation 2 (Suc 0) = [32, 32]" "indentation 2 0 = []"
    by (simp_all add: indentation_def numeral_2_eq_2)
  have 1: "format_output demo_runtime fenced_suite (S ''json'') =
      Inr (json_pretty 2 0 (model_dump fenced_suite))"
    by (simp add: format_output_def model_dump_json_def fenced_suite_def suite_strings_def
        has_surrogate_def is_surrogate_def fence_json_def fence_def S_def)
  have "re_search_fence (json_pretty 2 0 (model_dump fenced_suite)) = Some []"
    by (simp add: model_dump_def fenced_suite_def json_string_def escape_char_def i
        str_int_def str_nat.simps S_def fence_eval)
  moreover have "json_loads 4300 900 [] = Inl JSONDecodeError"
    by (simp add: json_eval)
  ultimately have 2: "parse_ai_response demo_runtime (json_pretty 2 0 (model_dump fenced_suite)) =
      Inl (ValueError (S ''Failed to parse AI response as JSON: '') (StrOf JSONDecodeError))"
    by (simp add: parse_ai_response_cases extract_json_text_def demo_runtime_def)
  have 3: "format_output demo_runtime surrogate_suite (S ''json'') =
      Inl PydanticSerializationError"
    by (simp add: format_output_def model_dump_json_def surrogate_suite_def suite_strings_def
        has_surrogate_def is_surrogate_def)
  have 4: "format_output demo_runtime huge_suite (S ''json'') =
      Inr (json_pretty 2 0 (model_dump huge_suite))"
    by (simp add: format_output_def model_dump_json_def huge_suite_def suite_strings_def
        has_surrogate_def is_surrogate_def S_def)
  have "\<forall>s\<in>set (suite_strings huge_suite). 96 \<notin> set s"
    by (simp add: huge_suite_def suite_strings_def S_def)
  then have "re_search_fence (json_pretty 2 0 (model_dump huge_suite)) = None"
    by (rule no_fence_without_backtick)
  then have 5: "parse_ai_response demo_runtime (json_pretty 2 0 (model_dump huge_suite)) =
      Inl (ValueError (S ''Failed to create TestSuite object: '') (StrOf DigitLimitError))"
    by (simp add: parse_ai_response_cases extract_json_text_def demo_runtime_def loads_huge_count)
  from 1 2 3 4 5 show ?thesis by simp
qed


end
